theory Spec2Isabelle
  imports Complex_Main "HOL-Library.Log_Nat" "HOL-Library.Multiset"
begin

section \<open>JavaScript numbers\<close>

text \<open>
  Every quantity of \<^verbatim>\<open>src/server/index.js\<close> is a JavaScript \<^verbatim>\<open>number\<close>: an IEEE 754
  binary64 value. A number is \<open>NaN\<close>, one of the two infinities, or a finite value, which is
  a rational. The arithmetic operators compute the exact rational result and round it to
  the nearest binary64 value, ties to the even significand (\<open>rnd\<close>).

  The sign of zero is not represented: \<open>Fin 0\<close> stands for both \<^verbatim>\<open>+0\<close> and \<^verbatim>\<open>-0\<close>. The two
  are equal under \<^verbatim>\<open>===\<close> and differ only as a divisor; the program never divides by a
  zero that it computed itself, so the difference can only come from an input that is
  \<^verbatim>\<open>-0\<close>.
\<close>

datatype jsnum = NaN | PInf | NInf | Fin rat

text \<open>\<open>ilog2 x\<close> is \<open>\<lfloor>log\<^sub>2 x\<rfloor>\<close> for a positive rational, computed from the bit lengths of
  numerator and denominator.\<close>

definition ilog2 :: "rat \<Rightarrow> int" where
  "ilog2 x = (let n = fst (quotient_of x); d = snd (quotient_of x); k = bitlen n - bitlen d
              in if 2 powi k \<le> x then k else k - 1)"

text \<open>Rounding to the nearest integer, ties to even.\<close>

definition round_even :: "rat \<Rightarrow> int" where
  "round_even x = (let f = \<lfloor>x\<rfloor>; r = x - of_int f
                   in if r < 1 / 2 then f else if 1 / 2 < r then f + 1
                      else if even f then f else f + 1)"

text \<open>The spacing of binary64 values around a nonzero \<open>x\<close> is a power of two: 53
  significant bits, and the exponent \<open>-1074\<close> in the subnormal range.\<close>

definition qexp :: "rat \<Rightarrow> int" where
  "qexp x = max (ilog2 \<bar>x\<bar> - 52) (- 1074)"

definition quantum :: "rat \<Rightarrow> rat" where
  "quantum x = 2 powi (qexp x)"

definition rnd :: "rat \<Rightarrow> jsnum" where
  "rnd x = (if x = 0 then Fin 0
            else let q = quantum x; v = of_int (round_even (x / q)) * q
                 in if 2 ^ 1024 \<le> \<bar>v\<bar> then (if 0 < x then PInf else NInf) else Fin v)"

text \<open>A rational is a binary64 value when rounding leaves it as it is.\<close>

definition is_double :: "rat \<Rightarrow> bool" where
  "is_double x \<longleftrightarrow> rnd x = Fin x"


fun not_NaN :: "jsnum \<Rightarrow> bool" where
  "not_NaN NaN = False"
| "not_NaN _ = True"

subsection \<open>The operators\<close>

fun fneg :: "jsnum \<Rightarrow> jsnum" where
  "fneg NaN = NaN"
| "fneg PInf = NInf"
| "fneg NInf = PInf"
| "fneg (Fin a) = Fin (- a)"

text \<open>\<^verbatim>\<open>a + b\<close>\<close>

fun fadd :: "jsnum \<Rightarrow> jsnum \<Rightarrow> jsnum" where
  "fadd NaN b = NaN"
| "fadd PInf NaN = NaN"
| "fadd PInf NInf = NaN"
| "fadd PInf PInf = PInf"
| "fadd PInf (Fin b) = PInf"
| "fadd NInf NaN = NaN"
| "fadd NInf PInf = NaN"
| "fadd NInf NInf = NInf"
| "fadd NInf (Fin b) = NInf"
| "fadd (Fin a) NaN = NaN"
| "fadd (Fin a) PInf = PInf"
| "fadd (Fin a) NInf = NInf"
| "fadd (Fin a) (Fin b) = rnd (a + b)"

text \<open>\<^verbatim>\<open>a - b\<close>\<close>

definition fsub :: "jsnum \<Rightarrow> jsnum \<Rightarrow> jsnum" where
  "fsub a b = fadd a (fneg b)"

text \<open>\<^verbatim>\<open>a * b\<close>: an infinity times zero is \<open>NaN\<close>.\<close>

fun fmul :: "jsnum \<Rightarrow> jsnum \<Rightarrow> jsnum" where
  "fmul NaN b = NaN"
| "fmul PInf NaN = NaN"
| "fmul PInf PInf = PInf"
| "fmul PInf NInf = NInf"
| "fmul PInf (Fin b) = (if b = 0 then NaN else if 0 < b then PInf else NInf)"
| "fmul NInf NaN = NaN"
| "fmul NInf PInf = NInf"
| "fmul NInf NInf = PInf"
| "fmul NInf (Fin b) = (if b = 0 then NaN else if 0 < b then NInf else PInf)"
| "fmul (Fin a) NaN = NaN"
| "fmul (Fin a) PInf = (if a = 0 then NaN else if 0 < a then PInf else NInf)"
| "fmul (Fin a) NInf = (if a = 0 then NaN else if 0 < a then NInf else PInf)"
| "fmul (Fin a) (Fin b) = rnd (a * b)"

text \<open>\<^verbatim>\<open>a / b\<close>: no exception on a zero divisor; \<^verbatim>\<open>0 / 0\<close> is \<open>NaN\<close> and \<^verbatim>\<open>x / 0\<close> an
  infinity.\<close>

fun fdiv :: "jsnum \<Rightarrow> jsnum \<Rightarrow> jsnum" where
  "fdiv NaN b = NaN"
| "fdiv PInf (Fin b) = (if 0 \<le> b then PInf else NInf)"
| "fdiv PInf b = NaN"
| "fdiv NInf (Fin b) = (if 0 \<le> b then NInf else PInf)"
| "fdiv NInf b = NaN"
| "fdiv (Fin a) NaN = NaN"
| "fdiv (Fin a) PInf = Fin 0"
| "fdiv (Fin a) NInf = Fin 0"
| "fdiv (Fin a) (Fin b) =
     (if b = 0 then (if a = 0 then NaN else if 0 < a then PInf else NInf)
      else rnd (a / b))"

text \<open>The integer part of a rational, towards zero.\<close>

definition trunc :: "rat \<Rightarrow> int" where
  "trunc x = (if 0 \<le> x then \<lfloor>x\<rfloor> else \<lceil>x\<rceil>)"

text \<open>\<^verbatim>\<open>n % d\<close>: the remainder of the truncating division, with the sign of the dividend.
  It is \<open>NaN\<close> when the dividend is infinite or the divisor is zero, and the dividend when
  the divisor is infinite. The remainder of two binary64 values is computed exactly.\<close>

fun fmod :: "jsnum \<Rightarrow> jsnum \<Rightarrow> jsnum" where
  "fmod NaN d = NaN"
| "fmod PInf d = NaN"
| "fmod NInf d = NaN"
| "fmod (Fin a) NaN = NaN"
| "fmod (Fin a) PInf = Fin a"
| "fmod (Fin a) NInf = Fin a"
| "fmod (Fin a) (Fin b) = (if b = 0 then NaN else Fin (a - b * of_int (trunc (a / b))))"

text \<open>\<^verbatim>\<open>a < b\<close>, \<^verbatim>\<open>a <= b\<close> and \<^verbatim>\<open>a === b\<close>: false whenever an operand is \<open>NaN\<close>.\<close>

fun flt :: "jsnum \<Rightarrow> jsnum \<Rightarrow> bool" where
  "flt NaN b = False"
| "flt a NaN = False"
| "flt PInf b = False"
| "flt NInf NInf = False"
| "flt NInf b = True"
| "flt (Fin a) PInf = True"
| "flt (Fin a) NInf = False"
| "flt (Fin a) (Fin b) = (a < b)"

fun fseq :: "jsnum \<Rightarrow> jsnum \<Rightarrow> bool" where
  "fseq NaN b = False"
| "fseq a NaN = False"
| "fseq a b = (a = b)"

definition fle :: "jsnum \<Rightarrow> jsnum \<Rightarrow> bool" where
  "fle a b \<longleftrightarrow> flt a b \<or> fseq a b"

text \<open>\<^verbatim>\<open>Math.round(x)\<close>: the nearest integer, a tie going to the larger one.\<close>

fun Math_round :: "jsnum \<Rightarrow> jsnum" where
  "Math_round (Fin x) = Fin (of_int \<lfloor>x + 1 / 2\<rfloor>)"
| "Math_round a = a"

section \<open>Data model\<close>

text \<open>
  The objects of \<^verbatim>\<open>src/server/index.js\<close>. A field that an object may lack is an option,
  \<open>None\<close> for \<^verbatim>\<open>undefined\<close>; \<open>toNumber\<close> is the conversion that an arithmetic operator
  applies to it.
\<close>

definition toNumber :: "jsnum option \<Rightarrow> jsnum" where
  "toNumber v = (case v of None \<Rightarrow> NaN | Some x \<Rightarrow> x)"

text \<open>A leg of a route. \<open>minStep\<close> is attached by \<^verbatim>\<open>addBinanceMinSteps\<close>, \<open>bid\<close> and \<open>ask\<close> by
  the live session.\<close>

record coinLeg =
  market :: string
  minStep :: "jsnum option"
  bid :: "jsnum option"
  ask :: "jsnum option"

record sell_leg = coinLeg +
  averageSellPrice :: jsnum
  sharesSellable :: jsnum

text \<open>The buy leg; \<open>leftOver\<close> is attached by \<^verbatim>\<open>adjustBuyCoin\<close>. The record is extensible, as
  the JavaScript object is: \<^verbatim>\<open>adjustBuyCoin\<close> copies every other field (\<^verbatim>\<open>...buyCoin\<close>).\<close>

record buy_leg = coinLeg +
  amountBuyable :: jsnum
  sharesBuyable :: jsnum
  averageBuyPrice :: jsnum
  leftOver :: "jsnum option"

record base_coin =
  name :: string
  baseMarket :: string

text \<open>A candidate route (lines 116 to 133); \<open>baseMarket\<close> is the field \<^verbatim>\<open>market\<close> of
  \<^verbatim>\<open>baseCoin\<close>.\<close>

record route =
  sellCoin :: sell_leg
  buyCoin :: buy_leg
  baseCoin :: base_coin
  ratio :: jsnum

text \<open>The summary of the worst route (lines 163 to 168): its fields \<^verbatim>\<open>sharesBuyable\<close>,
  \<^verbatim>\<open>baseCoin\<close>, \<^verbatim>\<open>averageSellPrice\<close> and \<^verbatim>\<open>averageBuyPrice\<close>.\<close>

record worst_summary =
  wSharesBuyable :: jsnum
  wBaseCoin :: string
  wAverageSellPrice :: jsnum
  wAverageBuyPrice :: jsnum

record best_route = route +
  worstRoute :: worst_summary

text \<open>An order book: each level is the pair \<^verbatim>\<open>[price, quantity]\<close>.\<close>

type_synonym level = "jsnum \<times> jsnum"

record order_book =
  bids :: "level list"
  asks :: "level list"

text \<open>A fill of an executed order; \<^verbatim>\<open>index.js\<close> reads \<^verbatim>\<open>commissionAsset\<close> and
  \<^verbatim>\<open>tradeId\<close> of the first one.\<close>

record fill =
  fillPrice :: jsnum
  fillQty :: jsnum
  fillCommission :: jsnum
  fillCommissionAsset :: string
  fillTradeId :: int

record order_result =
  symbol :: string
  fills :: "fill list"

text \<open>The reply of \<^verbatim>\<open>/trade\<close> (lines 403 to 427): a settled leg has the fields \<^verbatim>\<open>market\<close>
  (here \<open>legMarket\<close>), \<^verbatim>\<open>price\<close>, \<^verbatim>\<open>quantity\<close>, \<^verbatim>\<open>commission\<close>, \<^verbatim>\<open>commissionAsset\<close>, \<^verbatim>\<open>total\<close> and
  \<^verbatim>\<open>tradeId\<close>.\<close>

record settled_leg =
  legMarket :: string
  price :: jsnum
  quantity :: jsnum
  commission :: jsnum
  commissionAsset :: string
  total :: jsnum
  tradeId :: int

record savings_report =
  USDSavings :: jsnum
  totalUSDSavings :: jsnum
  bestBaseCoin :: string
  worstBaseCoin :: string

record settled_trade =
  sale :: settled_leg
  purchase :: settled_leg
  savings :: "savings_report option"

text \<open>The body of a \<^verbatim>\<open>/trade\<close> request (lines 317 to 319): of \<^verbatim>\<open>sellCoin\<close> the handler reads
  \<^verbatim>\<open>name\<close> and \<^verbatim>\<open>market\<close>, of \<^verbatim>\<open>buyCoin\<close> also \<^verbatim>\<open>averageBuyPrice\<close> and \<^verbatim>\<open>sharesBuyable\<close>.\<close>

record trade_request =
  reqSellCoinName :: string
  reqSellCoinMarket :: string
  reqBuyCoinName :: string
  reqBuyCoinMarket :: string
  reqBuyCoinAverageBuyPrice :: jsnum
  reqBuyCoinSharesBuyable :: jsnum
  reqShares :: jsnum
  reqBridgeCoins :: "string list"
  reqSmartRouting :: bool

text \<open>The variables that the handlers of a live session close over: \<^verbatim>\<open>SHARES_FOR_ORDER_UPDATES\<close>
  (line 462) and \<^verbatim>\<open>saleProceeds\<close> (line 468).\<close>

record session =
  SHARES_FOR_ORDER_UPDATES :: jsnum
  saleProceeds :: jsnum

text \<open>What reaches a live session: an update of the sell market's order book, an update of
  the buy market's, or the message \<^verbatim>\<open>sharesUpdated\<close>.\<close>

datatype event = SellCoinOrders order_book | BuyCoinOrders order_book | SharesUpdated jsnum

subsection \<open>Errors and the exchange module\<close>

text \<open>A rejected promise or a thrown exception is \<open>Inl\<close>: a \<^verbatim>\<open>TypeError\<close> of the language, or
  whatever a function of \<^verbatim>\<open>./binance\<close> throws.\<close>

datatype error = TypeError | Rejected string

text \<open>What a handler does: it broadcasts \<^verbatim>\<open>updateSellCoinInfo\<close> or \<^verbatim>\<open>updateBuyCoinInfo\<close>, it
  throws, or it returns without a broadcast.\<close>

datatype outcome = UpdateSellCoinInfo sell_leg | UpdateBuyCoinInfo buy_leg | Threw error | Silent

text \<open>\<^verbatim>\<open>await\<close>, and the sequencing of statements that may throw.\<close>

definition andThen :: "error + 'a \<Rightarrow> ('a \<Rightarrow> error + 'b) \<Rightarrow> error + 'b" where
  "andThen m f = (case m of Inl e \<Rightarrow> Inl e | Inr x \<Rightarrow> f x)"

text \<open>
  The module \<^verbatim>\<open>./binance\<close> is not among the sources; its functions are parameters. Each may
  fail. \<^verbatim>\<open>calculateSellData\<close> returns \<^verbatim>\<open>{sharesSellable, averageSellPrice, saleTotal}\<close>,
  here a triple in that order; \<^verbatim>\<open>calculateBuyData\<close> returns an object that \<^verbatim>\<open>index.js\<close>
  reads as \<^verbatim>\<open>{amountSpent, sharesPossibleToBuy, averageBuyPrice}\<close> in line 109 and as
  \<^verbatim>\<open>{amountSpent, sharesBuyable, averageBuyPrice}\<close> in line 510, here the quadruple
  \<open>(amountSpent, sharesPossibleToBuy, sharesBuyable, averageBuyPrice)\<close>;
  \<^verbatim>\<open>getMinStepsBinance\<close> returns the \<open>minStep\<close> of the sell market and of the buy market;
  \<^verbatim>\<open>aggregateFilledTradesBinance\<close> returns \<^verbatim>\<open>{price, qty, commission}\<close>, here a triple. An
  answer of the exchange is a function of the request: the model is of one moment of the
  market.
\<close>

record binance =
  getOrdersBinance :: "string \<Rightarrow> error + order_book"
  getMinStepsBinance :: "string \<Rightarrow> string \<Rightarrow> error + (jsnum option \<times> jsnum option)"
  getPriceBinance :: "string \<Rightarrow> error + jsnum"
  calculateSellData :: "level list \<Rightarrow> jsnum \<Rightarrow> error + (jsnum \<times> jsnum \<times> jsnum)"
  calculateBuyData :: "level list \<Rightarrow> jsnum \<Rightarrow> error + (jsnum \<times> jsnum \<times> jsnum \<times> jsnum)"
  sellMarketBinance :: "string \<Rightarrow> jsnum \<Rightarrow> error + order_result"
  buyMarketBinance :: "string \<Rightarrow> jsnum \<Rightarrow> error + order_result"
  aggregateFilledTradesBinance :: "fill list \<Rightarrow> error + (jsnum \<times> jsnum \<times> jsnum)"

section \<open>The lot adjustment\<close>

text \<open>\<^verbatim>\<open>adjustBuyCoin\<close>, lines 64 to 79.\<close>

definition adjustBuyCoin :: "'a buy_leg_scheme \<Rightarrow> 'a buy_leg_scheme" where
  "adjustBuyCoin b =
     (let sharesBuyable' = fdiv (amountBuyable b) (averageBuyPrice b);
          unBuyableShares = fmod sharesBuyable' (toNumber (minStep b));
          actualSharesBuyable = fsub sharesBuyable' unBuyableShares;
          actualAmountBuyable = fsub (amountBuyable b) (fmul unBuyableShares (averageBuyPrice b));
          leftOver' = fsub (amountBuyable b) actualAmountBuyable
      in b\<lparr>sharesBuyable := actualSharesBuyable,
            amountBuyable := actualAmountBuyable,
            leftOver := Some leftOver'\<rparr>)"

section \<open>Route evaluation\<close>

text \<open>\<^verbatim>\<open>addBinanceMinSteps\<close>, lines 35 to 54.\<close>

definition addBinanceMinSteps :: "binance \<Rightarrow> route \<Rightarrow> error + route" where
  "addBinanceMinSteps ex coins =
     andThen (getMinStepsBinance ex (market (sellCoin coins)) (market (buyCoin coins)))
       (\<lambda>(sellStep, buyStep).
          Inr (coins\<lparr>sellCoin := (sellCoin coins)\<lparr>minStep := sellStep\<rparr>,
                     buyCoin := (buyCoin coins)\<lparr>minStep := buyStep\<rparr>\<rparr>))"

text \<open>The body of the mapper of lines 90 to 134: the route through one bridge coin. Both
  order books are requested before either is awaited (\<^verbatim>\<open>Promise.all\<close>).\<close>

definition candidateRoute :: "binance \<Rightarrow> string \<Rightarrow> string \<Rightarrow> jsnum \<Rightarrow> string \<Rightarrow> error + route" where
  "candidateRoute ex sellCoinName buyCoinName sharesEntered baseCoin' =
     (let sellCoinSymbol = sellCoinName @ baseCoin';
          buyCoinSymbol = buyCoinName @ baseCoin'
      in andThen (getOrdersBinance ex sellCoinSymbol) (\<lambda>sellOrders.
         andThen (getOrdersBinance ex buyCoinSymbol) (\<lambda>buyOrders.
         andThen (calculateSellData ex (bids sellOrders) sharesEntered)
           (\<lambda>(sharesSellable', averageSellPrice', saleTotal).
         andThen (calculateBuyData ex (asks buyOrders) saleTotal)
           (\<lambda>(amountSpent, sharesPossibleToBuy, sharesBuyable', averageBuyPrice').
         Inr \<lparr>sellCoin = \<lparr>market = sellCoinSymbol, minStep = None, bid = None, ask = None,
                            averageSellPrice = averageSellPrice',
                            sharesSellable = sharesSellable'\<rparr>,
              buyCoin = \<lparr>market = buyCoinSymbol, minStep = None, bid = None, ask = None,
                           amountBuyable = amountSpent,
                           sharesBuyable = sharesPossibleToBuy,
                           averageBuyPrice = averageBuyPrice',
                           leftOver = None\<rparr>,
              baseCoin = \<lparr>name = baseCoin', baseMarket = baseCoin' @ ''USDT''\<rparr>,
              ratio = fdiv averageSellPrice' averageBuyPrice'\<rparr>)))))"

text \<open>\<^verbatim>\<open>Promise.map\<close>: the results in the order of the inputs; rejected as soon as one
  mapper is.\<close>

fun Promise_map :: "('a \<Rightarrow> error + 'b) \<Rightarrow> 'a list \<Rightarrow> error + 'b list" where
  "Promise_map f [] = Inr []"
| "Promise_map f (x # xs) =
     andThen (f x) (\<lambda>y. andThen (Promise_map f xs) (\<lambda>ys. Inr (y # ys)))"

text \<open>The comparator of lines 137 to 144; \<^verbatim>\<open>a !== b\<close> is the negation of \<^verbatim>\<open>a === b\<close>.\<close>

definition compareRoutes :: "'a route_scheme \<Rightarrow> 'a route_scheme \<Rightarrow> jsnum" where
  "compareRoutes route1 route2 =
     (if \<not> fseq (sharesSellable (sellCoin route1)) (sharesSellable (sellCoin route2))
      then fsub (sharesSellable (sellCoin route2)) (sharesSellable (sellCoin route1))
      else fsub (ratio route2) (ratio route1))"

text \<open>
  \<^verbatim>\<open>Array.prototype.sort(comparefn)\<close> belongs to the engine, not to the program. The engine
  reads a result of \<^verbatim>\<open>comparefn(a, b)\<close> below zero as \<open>a\<close> before \<open>b\<close>, a result above zero as
  \<open>a\<close> after \<open>b\<close>, and zero as equal; \<^verbatim>\<open>SortCompare\<close> takes a \<open>NaN\<close> for \<^verbatim>\<open>+0\<close>.
\<close>

type_synonym 'a array_sort = "('a \<Rightarrow> 'a \<Rightarrow> jsnum) \<Rightarrow> 'a list \<Rightarrow> 'a list"

definition sortsBefore :: "('a \<Rightarrow> 'a \<Rightarrow> jsnum) \<Rightarrow> 'a \<Rightarrow> 'a \<Rightarrow> bool" where
  "sortsBefore comparefn a b \<longleftrightarrow> flt (comparefn a b) (Fin 0)"

definition sortsAfter :: "('a \<Rightarrow> 'a \<Rightarrow> jsnum) \<Rightarrow> 'a \<Rightarrow> 'a \<Rightarrow> bool" where
  "sortsAfter comparefn a b \<longleftrightarrow> flt (Fin 0) (comparefn a b)"

definition sortsEqual :: "('a \<Rightarrow> 'a \<Rightarrow> jsnum) \<Rightarrow> 'a \<Rightarrow> 'a \<Rightarrow> bool" where
  "sortsEqual comparefn a b \<longleftrightarrow> \<not> sortsBefore comparefn a b \<and> \<not> sortsAfter comparefn a b"

text \<open>A consistent comparison function for a set of values, in the five conditions of
  ECMAScript: equality is reflexive, symmetric and transitive, and before and after are
  transitive.\<close>

definition consistent :: "('a \<Rightarrow> 'a \<Rightarrow> jsnum) \<Rightarrow> 'a set \<Rightarrow> bool" where
  "consistent comparefn S \<longleftrightarrow>
     (\<forall>a\<in>S. \<forall>b\<in>S. \<forall>c\<in>S.
        sortsEqual comparefn a a
      \<and> (sortsEqual comparefn a b \<longrightarrow> sortsEqual comparefn b a)
      \<and> (sortsEqual comparefn a b \<and> sortsEqual comparefn b c \<longrightarrow> sortsEqual comparefn a c)
      \<and> (sortsBefore comparefn a b \<and> sortsBefore comparefn b c \<longrightarrow> sortsBefore comparefn a c)
      \<and> (sortsAfter comparefn a b \<and> sortsAfter comparefn b c \<longrightarrow> sortsAfter comparefn a c))"

subsection \<open>The sort of V8\<close>

text \<open>
  V8 sorts an array of fewer than 64 elements in two steps (\<^verbatim>\<open>CountAndMakeRun\<close> and
  \<^verbatim>\<open>BinaryInsertionSort\<close> of its \<^verbatim>\<open>array-sort.tq\<close>). The first takes the longest run at
  the start of the array that is ascending, or strictly descending, and reverses a
  descending one. \<open>runLength\<close> counts the elements of the run that follow its first two.
\<close>

fun runLength :: "('a \<Rightarrow> 'a \<Rightarrow> jsnum) \<Rightarrow> bool \<Rightarrow> 'a \<Rightarrow> 'a list \<Rightarrow> nat" where
  "runLength comparefn isDescending previousElement [] = 0"
| "runLength comparefn isDescending previousElement (currentElement # rest) =
     (if flt (comparefn currentElement previousElement) (Fin 0) = isDescending
      then Suc (runLength comparefn isDescending currentElement rest) else 0)"

definition CountAndMakeRun :: "('a \<Rightarrow> 'a \<Rightarrow> jsnum) \<Rightarrow> 'a list \<Rightarrow> 'a list \<times> 'a list" where
  "CountAndMakeRun comparefn workArray =
     (case workArray of
        elementHigh # elementLow # rest \<Rightarrow>
          let isDescending = flt (comparefn elementLow elementHigh) (Fin 0);
              runLength' = 2 + runLength comparefn isDescending elementLow rest
          in (if isDescending then rev (take runLength' workArray) else take runLength' workArray,
              drop runLength' workArray)
      | _ \<Rightarrow> (workArray, []))"

text \<open>The second step inserts each remaining element, the \<open>pivot\<close>, into the sorted part
  before it, at the place that a binary search finds: behind every element that the
  search did not find to be after the pivot.\<close>

function binarySearch :: "('a \<Rightarrow> 'a \<Rightarrow> jsnum) \<Rightarrow> 'a \<Rightarrow> 'a list \<Rightarrow> nat \<Rightarrow> nat \<Rightarrow> nat" where
  "binarySearch comparefn pivot workArray left right =
     (if left < right
      then let mid = left + (right - left) div 2
           in if flt (comparefn pivot (workArray ! mid)) (Fin 0)
              then binarySearch comparefn pivot workArray left mid
              else binarySearch comparefn pivot workArray (mid + 1) right
      else left)"
  by pat_completeness auto

termination
  by (relation "measure (\<lambda>(comparefn, pivot, workArray, left, right). right - left)") auto

declare binarySearch.simps [simp del]

definition insertPivot :: "('a \<Rightarrow> 'a \<Rightarrow> jsnum) \<Rightarrow> 'a list \<Rightarrow> 'a \<Rightarrow> 'a list" where
  "insertPivot comparefn sorted' pivot =
     (let left = binarySearch comparefn pivot sorted' 0 (length sorted')
      in take left sorted' @ pivot # drop left sorted')"

definition BinaryInsertionSort :: "('a \<Rightarrow> 'a \<Rightarrow> jsnum) \<Rightarrow> 'a list \<Rightarrow> 'a list \<Rightarrow> 'a list" where
  "BinaryInsertionSort comparefn run rest = foldl (insertPivot comparefn) run rest"

text \<open>An array of 64 elements or more V8 sorts run by run and merges the runs;
  \<open>ArrayTimSort\<close> sorts an array of any length in the two steps above.\<close>

definition ArrayTimSort :: "'a array_sort" where
  "ArrayTimSort comparefn xs =
     (case CountAndMakeRun comparefn xs of (run, rest) \<Rightarrow> BinaryInsertionSort comparefn run rest)"

text \<open>
  What the language fixes of the result of \<^verbatim>\<open>sort\<close>: when \<^verbatim>\<open>comparefn\<close> is consistent for the
  elements of the array, the result is the sorted permutation in which elements that
  compare equal keep their order. There is one such permutation, and \<open>ArrayTimSort\<close>
  computes it. For any other \<^verbatim>\<open>comparefn\<close> the order is implementation-defined: what the
  engine at hand makes of the array, a parameter of the model.
\<close>

definition Array_sort :: "'a array_sort \<Rightarrow> 'a array_sort" where
  "Array_sort engine comparefn xs =
     (if consistent comparefn (set xs) then ArrayTimSort comparefn xs else engine comparefn xs)"

text \<open>Lines 90 to 144: the candidates, and their ranking.\<close>

definition possibleRoutes :: "binance \<Rightarrow> string \<Rightarrow> string \<Rightarrow> string list \<Rightarrow> jsnum \<Rightarrow> error + route list" where
  "possibleRoutes ex sellCoinName buyCoinName bridgeCoins sharesEntered =
     Promise_map (candidateRoute ex sellCoinName buyCoinName sharesEntered) bridgeCoins"

definition sortedRoutes :: "route array_sort \<Rightarrow> route list \<Rightarrow> route list" where
  "sortedRoutes engine rs = Array_sort engine compareRoutes rs"

text \<open>
  The ranking as the specification words it: a route ranks before another when it can sell
  more shares, or as many at a higher ratio. Two routes are tied when neither ranks before
  the other. The two figures rank the routes of a list when being ranked no later is
  transitive among them; it is, unless a \<open>NaN\<close> leaves two routes unranked that a third
  route tells apart.
\<close>

definition ranksBefore :: "route \<Rightarrow> route \<Rightarrow> bool" where
  "ranksBefore r1 r2 \<longleftrightarrow>
     flt (sharesSellable (sellCoin r2)) (sharesSellable (sellCoin r1))
     \<or> (fseq (sharesSellable (sellCoin r1)) (sharesSellable (sellCoin r2))
        \<and> flt (ratio r2) (ratio r1))"


definition ranked :: "route list \<Rightarrow> bool" where
  "ranked rs \<longleftrightarrow>
     (\<forall>a\<in>set rs. \<forall>b\<in>set rs. \<forall>c\<in>set rs.
        \<not> ranksBefore a b \<and> \<not> ranksBefore b c \<longrightarrow> \<not> ranksBefore a c)"

text \<open>Lines 146 to 170. \<^verbatim>\<open>sortedRoutes[0]\<close> of an empty array is \<^verbatim>\<open>undefined\<close>, and
  \<^verbatim>\<open>addBinanceMinSteps\<close> throws a \<^verbatim>\<open>TypeError\<close> when it takes \<^verbatim>\<open>undefined\<close> apart.\<close>

definition summary :: "route \<Rightarrow> worst_summary" where
  "summary worst =
     \<lparr>wSharesBuyable = sharesBuyable (buyCoin worst),
      wBaseCoin = name (baseCoin worst),
      wAverageSellPrice = averageSellPrice (sellCoin worst),
      wAverageBuyPrice = averageBuyPrice (buyCoin worst)\<rparr>"

definition selectRoute :: "binance \<Rightarrow> route list \<Rightarrow> error + best_route" where
  "selectRoute ex sortedRoutes' =
     (case sortedRoutes' of
        [] \<Rightarrow> Inl TypeError
      | bestRoute # _ \<Rightarrow>
          andThen (addBinanceMinSteps ex bestRoute) (\<lambda>bestRouteWithMinSteps.
            Inr (route.extend
                   (bestRouteWithMinSteps\<lparr>buyCoin := adjustBuyCoin (buyCoin bestRouteWithMinSteps)\<rparr>)
                   (best_route.fields (summary (last sortedRoutes'))))))"

definition getBestRoute :: "route array_sort \<Rightarrow> binance \<Rightarrow> string \<Rightarrow> string \<Rightarrow> string list \<Rightarrow> jsnum \<Rightarrow> error + best_route" where
  "getBestRoute engine ex sellCoinName buyCoinName bridgeCoins sharesEntered =
     andThen (possibleRoutes ex sellCoinName buyCoinName bridgeCoins sharesEntered)
       (\<lambda>rs. selectRoute ex (sortedRoutes engine rs))"

section \<open>Savings\<close>

text \<open>\<^verbatim>\<open>numberToFixed(number, precision)\<close>, lines 175 to 178, called without a base:
  \<^verbatim>\<open>Math.pow(10, precision)\<close> is the power of ten, exact for the precision 4 in use.\<close>

definition numberToFixed :: "jsnum \<Rightarrow> nat \<Rightarrow> jsnum" where
  "numberToFixed number precision =
     (let pow = rnd (10 ^ precision) in fdiv (Math_round (fmul number pow)) pow)"

text \<open>\<^verbatim>\<open>calculateUSDSavings\<close>, lines 182 to 199.\<close>

definition priceUSD :: "binance \<Rightarrow> string \<Rightarrow> error + jsnum" where
  "priceUSD ex coin = (if coin = ''USDT'' then Inr (Fin 1) else getPriceBinance ex (coin @ ''USDT''))"

definition calculateUSDSavings :: "binance \<Rightarrow> best_route \<Rightarrow> error + jsnum" where
  "calculateUSDSavings ex bestRoute =
     (let bestBaseCoin = name (baseCoin bestRoute);
          worstBaseCoin = wBaseCoin (worstRoute bestRoute);
          bestSpread = fsub (averageSellPrice (sellCoin bestRoute))
                            (averageBuyPrice (buyCoin bestRoute));
          worstSpread = fsub (wAverageSellPrice (worstRoute bestRoute))
                             (wAverageBuyPrice (worstRoute bestRoute))
      in andThen (priceUSD ex bestBaseCoin) (\<lambda>bestCoinPriceUSD.
         andThen (priceUSD ex worstBaseCoin) (\<lambda>worstCoinPriceUSD.
         Inr (numberToFixed (fsub (fmul bestSpread bestCoinPriceUSD)
                                  (fmul worstSpread worstCoinPriceUSD)) 4))))"

section \<open>Trade settlement\<close>

text \<open>The fee rate of lines 369 and 385; a decimal literal is the nearest binary64 value.\<close>

definition commissionDecimal :: "string \<Rightarrow> jsnum" where
  "commissionDecimal asset = (if asset = ''BNB'' then rnd (5 / 100000) else rnd (1 / 10000))"

text \<open>\<^verbatim>\<open>fills[0]\<close> taken apart (lines 367 and 383): a \<^verbatim>\<open>TypeError\<close> when there is no fill.\<close>

definition firstFill :: "fill list \<Rightarrow> error + fill" where
  "firstFill fs = (case fs of [] \<Rightarrow> Inl TypeError | f # _ \<Rightarrow> Inr f)"

text \<open>Lines 329 to 345: the two markets, the \<^verbatim>\<open>sharesBuyable\<close> of the buy leg, and the best
  route when smart routing is on.\<close>

definition tradeRoute :: "route array_sort \<Rightarrow> binance \<Rightarrow> trade_request \<Rightarrow> error + (string \<times> string \<times> jsnum \<times> best_route option)" where
  "tradeRoute engine ex req =
     (if reqSmartRouting req
      then andThen (getBestRoute engine ex (reqSellCoinName req) (reqBuyCoinName req)
                      (reqBridgeCoins req) (reqShares req))
             (\<lambda>bestRoute. Inr (market (sellCoin bestRoute), market (buyCoin bestRoute),
                                sharesBuyable (buyCoin bestRoute), Some bestRoute))
      else Inr (reqSellCoinMarket req, reqBuyCoinMarket req, reqBuyCoinSharesBuyable req, None))"

text \<open>Lines 359 to 371 and 403 to 411: the sale, from the reply to the sell order.\<close>

definition settleSale :: "binance \<Rightarrow> order_result \<Rightarrow> error + settled_leg" where
  "settleSale ex sellRes =
     andThen (aggregateFilledTradesBinance ex (fills sellRes))
       (\<lambda>(sellPrice, sellQuantity, sellCommission).
     andThen (firstFill (fills sellRes)) (\<lambda>sellFill.
     let sellCommissionDecimal = commissionDecimal (fillCommissionAsset sellFill);
         sellAmount = fmul sellQuantity sellPrice;
         sellTotal = fsub sellAmount (fmul sellAmount sellCommissionDecimal)
     in Inr \<lparr>legMarket = symbol sellRes, price = sellPrice, quantity = sellQuantity,
             commission = sellCommission,
             commissionAsset = fillCommissionAsset sellFill,
             total = sellTotal, tradeId = fillTradeId sellFill\<rparr>))"

text \<open>Lines 381 to 387 and 413 to 421: the purchase, from the reply to the buy order.\<close>

definition settlePurchase :: "binance \<Rightarrow> order_result \<Rightarrow> error + settled_leg" where
  "settlePurchase ex buyRes =
     andThen (aggregateFilledTradesBinance ex (fills buyRes))
       (\<lambda>(buyPrice, buyQuantity, buyCommission).
     andThen (firstFill (fills buyRes)) (\<lambda>buyFill.
     let buyCommissionDecimal = commissionDecimal (fillCommissionAsset buyFill);
         buyAmount = fmul buyQuantity buyPrice;
         buyTotal = fadd buyAmount (fmul buyAmount buyCommissionDecimal)
     in Inr \<lparr>legMarket = symbol buyRes, price = buyPrice, quantity = buyQuantity,
             commission = buyCommission,
             commissionAsset = fillCommissionAsset buyFill,
             total = buyTotal, tradeId = fillTradeId buyFill\<rparr>))"

text \<open>Lines 389 to 401: the savings, when smart routing is on.\<close>

definition tradeSavings :: "binance \<Rightarrow> best_route option \<Rightarrow> jsnum \<Rightarrow> error + savings_report option" where
  "tradeSavings ex bestRoute buyQuantity =
     (case bestRoute of
        None \<Rightarrow> Inr None
      | Some best \<Rightarrow>
          andThen (calculateUSDSavings ex best) (\<lambda>USDSavings'.
            Inr (Some \<lparr>USDSavings = USDSavings',
                       totalUSDSavings = numberToFixed (fmul USDSavings' buyQuantity) 4,
                       bestBaseCoin = name (baseCoin best),
                       worstBaseCoin = wBaseCoin (worstRoute best)\<rparr>)))"

text \<open>The handler of \<^verbatim>\<open>/trade\<close>, lines 316 to 436, in the order of its statements; \<open>Inl\<close> is
  the reply 404 of its \<^verbatim>\<open>catch\<close>.\<close>

definition trade :: "route array_sort \<Rightarrow> binance \<Rightarrow> trade_request \<Rightarrow> error + settled_trade" where
  "trade engine ex req =
     andThen (tradeRoute engine ex req) (\<lambda>(sellCoinSymbol, buyCoinSymbol, sharesBuyable', bestRoute).
     andThen (getMinStepsBinance ex sellCoinSymbol buyCoinSymbol) (\<lambda>(sellStep, buyCoinMinStep).
     andThen (sellMarketBinance ex sellCoinSymbol (reqShares req)) (\<lambda>sellRes.
     andThen (settleSale ex sellRes) (\<lambda>sale'.
     let unBuyableShares = fmod sharesBuyable' (toNumber buyCoinMinStep);
         actualSharesBuyable = fsub sharesBuyable' unBuyableShares;
         quantityToBuy = actualSharesBuyable
     in
     andThen (buyMarketBinance ex buyCoinSymbol quantityToBuy) (\<lambda>buyRes.
     andThen (settlePurchase ex buyRes) (\<lambda>purchase'.
     andThen (tradeSavings ex bestRoute (quantity purchase')) (\<lambda>savings'.
     Inr \<lparr>sale = sale', purchase = purchase', savings = savings'\<rparr>)))))))"

section \<open>The live session\<close>

text \<open>\<^verbatim>\<open>bids[0][0]\<close> and \<^verbatim>\<open>asks[0][0]\<close> (lines 490, 491, 516 and 517): with no level,
  \<^verbatim>\<open>bids[0]\<close> is \<^verbatim>\<open>undefined\<close> and its element 0 a \<^verbatim>\<open>TypeError\<close>.\<close>

definition topOfBook :: "level list \<Rightarrow> error + jsnum" where
  "topOfBook levels = (case levels of [] \<Rightarrow> Inl TypeError | l # _ \<Rightarrow> Inr (fst l))"

text \<open>The callback of lines 480 to 504. \<open>saleProceeds\<close> is assigned before the top of the
  book is read.\<close>

definition onSellCoinOrders :: "binance \<Rightarrow> string \<Rightarrow> session \<Rightarrow> order_book \<Rightarrow> session \<times> outcome" where
  "onSellCoinOrders ex sellCoinSymbol s sellCoinOrders =
     (case calculateSellData ex (bids sellCoinOrders) (SHARES_FOR_ORDER_UPDATES s) of
        Inl e \<Rightarrow> (s, Threw e)
      | Inr (sharesSellable', averageSellPrice', saleTotal) \<Rightarrow>
          (s\<lparr>saleProceeds := saleTotal\<rparr>,
           case topOfBook (bids sellCoinOrders) of
             Inl e \<Rightarrow> Threw e
           | Inr bid' \<Rightarrow>
               (case topOfBook (asks sellCoinOrders) of
                  Inl e \<Rightarrow> Threw e
                | Inr ask' \<Rightarrow>
                    UpdateSellCoinInfo
                      \<lparr>market = sellCoinSymbol, minStep = None, bid = Some bid', ask = Some ask',
                       averageSellPrice = averageSellPrice',
                       sharesSellable = sharesSellable'\<rparr>)))"

text \<open>The callback of lines 508 to 534; \<open>buyCoin'\<close> is the \<^verbatim>\<open>buyCoin\<close> of the subscription.\<close>

definition onBuyCoinOrders :: "binance \<Rightarrow> buy_leg \<Rightarrow> session \<Rightarrow> order_book \<Rightarrow> session \<times> outcome" where
  "onBuyCoinOrders ex buyCoin' s buyCoinOrders =
     (case calculateBuyData ex (asks buyCoinOrders) (saleProceeds s) of
        Inl e \<Rightarrow> (s, Threw e)
      | Inr (amountSpent, sharesPossibleToBuy, sharesBuyable', averageBuyPrice') \<Rightarrow>
          (s,
           case topOfBook (bids buyCoinOrders) of
             Inl e \<Rightarrow> Threw e
           | Inr bid' \<Rightarrow>
               (case topOfBook (asks buyCoinOrders) of
                  Inl e \<Rightarrow> Threw e
                | Inr ask' \<Rightarrow>
                    UpdateBuyCoinInfo
                      (adjustBuyCoin
                         (buyCoin'\<lparr>bid := Some bid', ask := Some ask',
                                   averageBuyPrice := averageBuyPrice',
                                   sharesBuyable := sharesBuyable',
                                   amountBuyable := amountSpent\<rparr>)))))"

text \<open>The handler of \<^verbatim>\<open>sharesUpdated\<close>, lines 542 to 544.\<close>

definition sharesUpdated :: "session \<Rightarrow> jsnum \<Rightarrow> session \<times> outcome" where
  "sharesUpdated s sharesEntered = (s\<lparr>SHARES_FOR_ORDER_UPDATES := sharesEntered\<rparr>, Silent)"

text \<open>A session after \<^verbatim>\<open>subscribeToOrders\<close> (lines 462 and 468), one event, and a sequence of
  events with the outcome of each. The handlers run one at a time, each to its end.\<close>

definition newSession :: session where
  "newSession = \<lparr>SHARES_FOR_ORDER_UPDATES = Fin 0, saleProceeds = Fin 0\<rparr>"

fun handle :: "binance \<Rightarrow> string \<Rightarrow> buy_leg \<Rightarrow> session \<Rightarrow> event \<Rightarrow> session \<times> outcome" where
  "handle ex sellCoinSymbol buyCoin' s (SellCoinOrders ob) = onSellCoinOrders ex sellCoinSymbol s ob"
| "handle ex sellCoinSymbol buyCoin' s (BuyCoinOrders ob) = onBuyCoinOrders ex buyCoin' s ob"
| "handle ex sellCoinSymbol buyCoin' s (SharesUpdated sharesEntered) = sharesUpdated s sharesEntered"

fun run :: "binance \<Rightarrow> string \<Rightarrow> buy_leg \<Rightarrow> session \<Rightarrow> event list \<Rightarrow> session \<times> outcome list" where
  "run ex sellCoinSymbol buyCoin' s [] = (s, [])"
| "run ex sellCoinSymbol buyCoin' s (e # es) =
     (let (s', out) = handle ex sellCoinSymbol buyCoin' s e;
          (s'', outs) = run ex sellCoinSymbol buyCoin' s' es
      in (s'', out # outs))"

text \<open>The events that run the sell-leg handler.\<close>

fun isSellUpdate :: "event \<Rightarrow> bool" where
  "isSellUpdate (SellCoinOrders ob) = True"
| "isSellUpdate _ = False"

text \<open>The quantity that the caller entered last: that of the latest \<^verbatim>\<open>sharesUpdated\<close> among
  the events, or the one before them.\<close>

fun enteredQuantity :: "jsnum \<Rightarrow> event list \<Rightarrow> jsnum" where
  "enteredQuantity q [] = q"
| "enteredQuantity q (SharesUpdated sharesEntered # es) = enteredQuantity sharesEntered es"
| "enteredQuantity q (e # es) = enteredQuantity q es"

section \<open>An example\<close>

text \<open>An exchange with the markets of XRP and ADA against BTC and against USDT, and none
  against ETH. Its simulations fill the whole order at the top of the book.\<close>

definition exampleExchange :: binance where
  "exampleExchange =
     \<lparr>getOrdersBinance = (\<lambda>symbol'.
        if symbol' = ''XRPBTC'' then Inr \<lparr>bids = [(Fin 3, Fin 10)], asks = [(Fin 4, Fin 10)]\<rparr>
        else if symbol' = ''ADABTC'' then Inr \<lparr>bids = [(Fin 1, Fin 50)], asks = [(Fin 2, Fin 50)]\<rparr>
        else if symbol' = ''XRPUSDT'' then Inr \<lparr>bids = [(Fin 4, Fin 10)], asks = [(Fin 5, Fin 10)]\<rparr>
        else if symbol' = ''ADAUSDT'' then Inr \<lparr>bids = [(Fin 1, Fin 50)], asks = [(Fin 2, Fin 50)]\<rparr>
        else Inl (Rejected ''Invalid symbol'')),
      getMinStepsBinance = (\<lambda>sellCoinMarket buyCoinMarket. Inr (Some (Fin 1), Some (Fin 1))),
      getPriceBinance = (\<lambda>symbol'. if symbol' = ''BTCUSDT'' then Inr (Fin 2)
                                     else Inl (Rejected ''Invalid symbol'')),
      calculateSellData = (\<lambda>bids' shares'. case bids' of
          [] \<Rightarrow> Inl (Rejected ''no bids'')
        | l # _ \<Rightarrow> Inr (shares', fst l, fmul shares' (fst l))),
      calculateBuyData = (\<lambda>asks' buyAmount. case asks' of
          [] \<Rightarrow> Inl (Rejected ''no asks'')
        | l # _ \<Rightarrow> Inr (buyAmount, fdiv buyAmount (fst l), fdiv buyAmount (fst l), fst l)),
      sellMarketBinance = (\<lambda>symbol' quantity'. Inr \<lparr>symbol = symbol', fills =
          [\<lparr>fillPrice = Fin 4, fillQty = quantity', fillCommission = Fin 0,
            fillCommissionAsset = ''BNB'', fillTradeId = 1\<rparr>]\<rparr>),
      buyMarketBinance = (\<lambda>symbol' quantity'. Inr \<lparr>symbol = symbol', fills =
          [\<lparr>fillPrice = Fin 2, fillQty = quantity', fillCommission = Fin 0,
            fillCommissionAsset = ''ADA'', fillTradeId = 2\<rparr>]\<rparr>),
      aggregateFilledTradesBinance = (\<lambda>fills'. case fills' of
          [] \<Rightarrow> Inl (Rejected ''no fills'')
        | f # _ \<Rightarrow> Inr (fillPrice f, fillQty f, fillCommission f))\<rparr>"

text \<open>The candidates for selling 4 XRP for ADA through BTC and through USDT on that
  exchange.\<close>

definition exampleCandidates :: "route list" where
  "exampleCandidates =
     [\<lparr>sellCoin = \<lparr>market = ''XRPBTC'', minStep = None, bid = None, ask = None,
                    averageSellPrice = Fin 3, sharesSellable = Fin 4\<rparr>,
       buyCoin = \<lparr>market = ''ADABTC'', minStep = None, bid = None, ask = None,
                   amountBuyable = fmul (Fin 4) (Fin 3),
                   sharesBuyable = fdiv (fmul (Fin 4) (Fin 3)) (Fin 2),
                   averageBuyPrice = Fin 2, leftOver = None\<rparr>,
       baseCoin = \<lparr>name = ''BTC'', baseMarket = ''BTCUSDT''\<rparr>,
       ratio = Fin (3 / 2)\<rparr>,
      \<lparr>sellCoin = \<lparr>market = ''XRPUSDT'', minStep = None, bid = None, ask = None,
                    averageSellPrice = Fin 4, sharesSellable = Fin 4\<rparr>,
       buyCoin = \<lparr>market = ''ADAUSDT'', minStep = None, bid = None, ask = None,
                   amountBuyable = fmul (Fin 4) (Fin 4),
                   sharesBuyable = fdiv (fmul (Fin 4) (Fin 4)) (Fin 2),
                   averageBuyPrice = Fin 2, leftOver = None\<rparr>,
       baseCoin = \<lparr>name = ''USDT'', baseMarket = ''USDTUSDT''\<rparr>,
       ratio = Fin 2\<rparr>]"

text \<open>A trade request without smart routing, a best route with a spread of 2 against a
  worst spread of 1, both through USDT, an order book, and the buy leg of a subscription.\<close>

definition exampleRequest :: trade_request where
  "exampleRequest =
     \<lparr>reqSellCoinName = ''XRP'', reqSellCoinMarket = ''XRPUSDT'',
      reqBuyCoinName = ''ADA'', reqBuyCoinMarket = ''ADAUSDT'',
      reqBuyCoinAverageBuyPrice = Fin 2, reqBuyCoinSharesBuyable = Fin 8,
      reqShares = Fin 4, reqBridgeCoins = [''BTC'', ''USDT''], reqSmartRouting = False\<rparr>"


definition exampleBook :: order_book where
  "exampleBook = \<lparr>bids = [(Fin 4, Fin 10), (Fin 3, Fin 20)], asks = [(Fin 5, Fin 10)]\<rparr>"

definition exampleBuyCoin :: buy_leg where
  "exampleBuyCoin =
     \<lparr>market = ''ADAUSDT'', minStep = Some (Fin 1), bid = None, ask = None,
      amountBuyable = Fin 16, sharesBuyable = Fin 8, averageBuyPrice = Fin 2,
      leftOver = Some (Fin 0)\<rparr>"

text \<open>A buy leg of 3 at an average price of 2, with a step of 1.\<close>

definition exampleLot :: buy_leg where
  "exampleLot =
     \<lparr>market = ''ADAUSDT'', minStep = Some (Fin 1), bid = None, ask = None,
      amountBuyable = Fin 3, sharesBuyable = Fin (3 / 2), averageBuyPrice = Fin 2,
      leftOver = None\<rparr>"


text \<open>An exchange whose simulations signal the average over a quantity of zero as an
  error.\<close>

definition strictExchange :: binance where
  "strictExchange = exampleExchange
     \<lparr>calculateSellData := (\<lambda>bids' shares'.
        if fseq shares' (Fin 0) then Inl (Rejected ''DivisionByZero'')
        else calculateSellData exampleExchange bids' shares'),
      calculateBuyData := (\<lambda>asks' buyAmount.
        if fseq buyAmount (Fin 0) then Inl (Rejected ''DivisionByZero'')
        else calculateBuyData exampleExchange asks' buyAmount)\<rparr>"



text \<open>A session in which 4 shares were entered and sold for 16.\<close>

definition exampleSession :: session where
  "exampleSession = \<lparr>SHARES_FOR_ORDER_UPDATES = Fin 4, saleProceeds = Fin 16\<rparr>"

section \<open>Facts about the operators\<close>

lemma fmod_zero_divisor: "fmod a (Fin 0) = NaN"
  by (cases a) simp_all

lemma fsub_NaN_right: "fsub a NaN = NaN"
  by (cases a) (simp_all add: fsub_def)

subsection \<open>Rounding\<close>

lemma quotient_pos:
  assumes "0 < x"
  shows "0 < fst (quotient_of x)" "0 < snd (quotient_of x)"
        "x = of_int (fst (quotient_of x)) / of_int (snd (quotient_of x))"
proof -
  obtain n d where nd: "quotient_of x = (n, d)" by (cases "quotient_of x")
  have d: "0 < d" using nd by (rule quotient_of_denom_pos)
  have x: "x = of_int n / of_int d" using nd by (rule quotient_of_div)
  have "0 < n" using assms d x by (simp add: zero_less_divide_iff)
  then show "0 < fst (quotient_of x)" "0 < snd (quotient_of x)"
        "x = of_int (fst (quotient_of x)) / of_int (snd (quotient_of x))"
    using nd d x by simp_all
qed

lemma ilog2_lower:
  assumes "0 < x"
  shows "2 powi (ilog2 x) \<le> x"
proof -
  define n where "n = fst (quotient_of x)"
  define d where "d = snd (quotient_of x)"
  have n: "0 < n" and d: "0 < d" and x: "x = of_int n / of_int d"
    using quotient_pos[OF assms] by (simp_all add: n_def d_def)
  define k where "k = bitlen n - bitlen d"
  show ?thesis
  proof (cases "2 powi k \<le> x")
    case True
    then show ?thesis by (simp add: ilog2_def Let_def n_def d_def k_def)
  next
    case False
    then have il: "ilog2 x = k - 1" by (simp add: ilog2_def Let_def n_def d_def k_def)
    have bn: "bitlen n \<ge> 1" and bd: "bitlen d \<ge> 1" using n d by (simp_all add: bitlen_alt_def)
    have n1: "(2::int) ^ nat (bitlen n - 1) \<le> n" using bitlen_bounds[OF n] by simp
    have d1: "d < (2::int) ^ nat (bitlen d)" using bitlen_bounds[OF d] by simp
    have n2: "(2::rat) powi (bitlen n - 1) \<le> of_int n"
    proof -
      have "(of_int ((2::int) ^ nat (bitlen n - 1)) :: rat) \<le> of_int n" using n1 by (simp only: of_int_le_iff)
      then show ?thesis using bn by (simp add: power_int_def)
    qed
    have d2: "of_int d \<le> (2::rat) powi (bitlen d)"
    proof -
      have "(of_int d :: rat) \<le> of_int ((2::int) ^ nat (bitlen d))" using d1 by simp
      then show ?thesis using bd by (simp add: power_int_def)
    qed
    have "(2::rat) powi (k - 1) = 2 powi (bitlen n - 1) / 2 powi (bitlen d)"
      using power_int_diff[of "2::rat" "bitlen n - 1" "bitlen d"] by (simp add: k_def algebra_simps)
    also have "\<dots> \<le> of_int n / 2 powi (bitlen d)"
      using n2 by (simp add: divide_right_mono)
    also have "\<dots> \<le> of_int n / of_int d"
      using d2 d n by (simp add: frac_le)
    finally show ?thesis using il x by simp
  qed
qed

lemma ilog2_upper:
  assumes "0 < x"
  shows "x < 2 powi (ilog2 x + 1)"
proof -
  define n where "n = fst (quotient_of x)"
  define d where "d = snd (quotient_of x)"
  have n: "0 < n" and d: "0 < d" and x: "x = of_int n / of_int d"
    using quotient_pos[OF assms] by (simp_all add: n_def d_def)
  define k where "k = bitlen n - bitlen d"
  show ?thesis
  proof (cases "2 powi k \<le> x")
    case False
    then show ?thesis by (simp add: ilog2_def Let_def n_def d_def k_def)
  next
    case True
    then have il: "ilog2 x = k" by (simp add: ilog2_def Let_def n_def d_def k_def)
    have bn: "bitlen n \<ge> 1" and bd: "bitlen d \<ge> 1" using n d by (simp_all add: bitlen_alt_def)
    have n1: "n < (2::int) ^ nat (bitlen n)" using bitlen_bounds[OF n] by simp
    have d1: "(2::int) ^ nat (bitlen d - 1) \<le> d" using bitlen_bounds[OF d] by simp
    have n2: "of_int n < (2::rat) powi (bitlen n)"
    proof -
      have "(of_int n :: rat) < of_int ((2::int) ^ nat (bitlen n))" using n1 by (simp only: of_int_less_iff)
      then show ?thesis using bn by (simp add: power_int_def)
    qed
    have d2: "(2::rat) powi (bitlen d - 1) \<le> of_int d"
    proof -
      have "(of_int ((2::int) ^ nat (bitlen d - 1)) :: rat) \<le> of_int d" using d1 by (simp only: of_int_le_iff)
      then show ?thesis using bd by (simp add: power_int_def)
    qed
    have p: "(0::rat) < 2 powi (bitlen d - 1)" by simp
    have "of_int n / of_int d \<le> of_int n / (2::rat) powi (bitlen d - 1)"
      using d2 n p by (simp add: frac_le)
    also have "\<dots> < 2 powi (bitlen n) / 2 powi (bitlen d - 1)"
      using n2 p by (simp add: divide_strict_right_mono)
    also have "\<dots> = 2 powi (k + 1)"
      using power_int_diff[of "2::rat" "bitlen n" "bitlen d - 1"] by (simp add: k_def algebra_simps)
    finally show ?thesis using il x by simp
  qed
qed

lemma round_even_bounds: "of_int (round_even y) \<le> y + 1 / 2" "y - 1 / 2 \<le> of_int (round_even y)"
proof -
  have f: "of_int \<lfloor>y\<rfloor> \<le> y" "y < of_int \<lfloor>y\<rfloor> + 1" by linarith+
  show "of_int (round_even y) \<le> y + 1 / 2"
    unfolding round_even_def Let_def by (simp; linarith)
  show "y - 1 / 2 \<le> of_int (round_even y)"
    unfolding round_even_def Let_def by (simp; linarith)
qed

lemma round_even_of_int [simp]: "round_even (of_int k) = k"
  by (simp add: round_even_def Let_def)

lemma round_even_ge:
  assumes "of_int k \<le> y"
  shows "k \<le> round_even y"
proof -
  have kf: "k \<le> \<lfloor>y\<rfloor>" using assms by (simp add: le_floor_iff)
  then show ?thesis by (auto simp: round_even_def Let_def)
qed

lemma round_even_le:
  assumes "y \<le> of_int k"
  shows "round_even y \<le> k"
proof (cases "y = of_int k")
  case True
  then show ?thesis by simp
next
  case False
  then have "y < of_int k" using assms by simp
  then have "\<lfloor>y\<rfloor> < k" by (simp add: floor_less_iff)
  then show ?thesis by (auto simp: round_even_def Let_def)
qed

lemma round_even_minus: "round_even (- y) = - round_even y"
proof (cases "y = of_int \<lfloor>y\<rfloor>")
  case True
  then obtain k where "y = of_int k" ..
  then have "- y = of_int (- k)" by simp
  then show ?thesis unfolding \<open>y = of_int k\<close> by (simp only: round_even_of_int)
next
  case False
  then have fl: "\<lfloor>- y\<rfloor> = - \<lfloor>y\<rfloor> - 1"
    by (simp add: floor_minus ceiling_altdef)
  show ?thesis
    using False by (auto simp: round_even_def Let_def fl)
qed

lemma quantum_pos: "0 < quantum x"
  by (simp add: quantum_def qexp_def)

lemma quantum_minus: "quantum (- x) = quantum x"
  by (simp add: quantum_def qexp_def)

lemma rnd_minus: "rnd (- x) = fneg (rnd x)"
  by (simp add: rnd_def Let_def quantum_minus round_even_minus)




lemma double_grid:
  assumes "is_double a"
  shows "\<exists>k::int. a = of_int k * 2 powi (- 1074)"
proof (cases "a = 0")
  case True
  then show ?thesis by (intro exI[of _ 0]) simp
next
  case False
  define e where "e = qexp a"
  define m where "m = round_even (a / quantum a)"
  have q: "quantum a = 2 powi e" by (simp add: quantum_def qexp_def e_def)
  have a: "a = of_int m * 2 powi e"
    using assms False unfolding is_double_def rnd_def Let_def m_def q
    by (simp split: if_splits)
  have e: "0 \<le> e + 1074" by (simp add: e_def qexp_def)
  have "(2::rat) powi e = 2 powi (e + 1074) * 2 powi (- 1074)"
    using power_int_add[of "2::rat" "e + 1074" "- 1074"] by simp
  also have "(2::rat) powi (e + 1074) = of_int (2 ^ nat (e + 1074))"
    using e by (simp add: power_int_def)
  finally have "a = of_int (m * 2 ^ nat (e + 1074)) * 2 powi (- 1074)"
    using a by simp
  then show ?thesis ..
qed



lemma ilog2_less:
  assumes "0 < x" and "x < 2 powi k"
  shows "ilog2 x < k"
proof (rule ccontr)
  assume "\<not> ilog2 x < k"
  then have "k \<le> ilog2 x" by simp
  then have "(2::rat) powi k \<le> 2 powi (ilog2 x)" by (intro power_int_increasing) simp_all
  also have "\<dots> \<le> x" using assms(1) by (rule ilog2_lower)
  finally show False using assms(2) by simp
qed

lemma rnd_exact:
  assumes "\<bar>m\<bar> < 2 ^ 53" and "- 1074 \<le> e" and "e \<le> 971" and "x = of_int m * 2 powi e"
  shows "rnd x = Fin x"
proof (cases "x = 0")
  case True
  then show ?thesis by (simp add: rnd_def)
next
  case False
  define e' where "e' = qexp x"
  have q: "quantum x = 2 powi e'" by (simp add: quantum_def qexp_def e'_def)
  have ax: "\<bar>x\<bar> = of_int \<bar>m\<bar> * 2 powi e" using assms(4) by (simp add: abs_mult)
  have m53: "(of_int \<bar>m\<bar> :: rat) < 2 ^ 53"
  proof -
    have "(of_int \<bar>m\<bar> :: rat) < of_int (2 ^ 53)" using assms(1) by (simp only: of_int_less_iff)
    then show ?thesis by simp
  qed
  have "\<bar>x\<bar> < 2 ^ 53 * 2 powi e" unfolding ax using m53 by simp
  also have "\<dots> = 2 powi (e + 53)"
    using power_int_add[of "2::rat" e 53] by simp
  finally have lt: "\<bar>x\<bar> < 2 powi (e + 53)" .
  have "ilog2 \<bar>x\<bar> < e + 53" using False lt by (intro ilog2_less) simp_all
  then have le: "e' \<le> e" using assms(2) by (simp add: e'_def qexp_def)
  have split: "(2::rat) powi e = of_int (2 ^ nat (e - e')) * 2 powi e'"
  proof -
    have "(2::rat) powi e = 2 powi (e - e') * 2 powi e'"
      using power_int_add[of "2::rat" "e - e'" e'] by simp
    then show ?thesis using le by (simp add: power_int_def)
  qed
  have xq: "x = of_int (m * 2 ^ nat (e - e')) * quantum x"
    using assms(4) split q by simp
  have qp: "quantum x \<noteq> 0" using quantum_pos[of x] by simp
  have "x / quantum x = of_int (m * 2 ^ nat (e - e'))"
    using xq qp by (metis nonzero_eq_divide_eq)
  then have "round_even (x / quantum x) = m * 2 ^ nat (e - e')"
    by (simp only: round_even_of_int)
  then have r: "of_int (round_even (x / quantum x)) * quantum x = x"
    using xq by simp
  have "\<bar>x\<bar> < 2 powi 1024"
  proof -
    have "(2::rat) powi (e + 53) \<le> 2 powi 1024" using assms(3) by (intro power_int_increasing) simp_all
    then show ?thesis using lt by simp
  qed
  then have "\<not> 2 ^ 1024 \<le> \<bar>x\<bar>" by simp
  then show ?thesis using False r by (simp add: rnd_def Let_def)
qed

lemma rnd_int: "\<bar>m\<bar> < 2 ^ 53 \<Longrightarrow> rnd (of_int m) = Fin (of_int m)"
  by (rule rnd_exact[of m 0]) simp_all

lemma rnd_values:
  "rnd 1 = Fin 1" "rnd 2 = Fin 2" "rnd 4 = Fin 4" "rnd (3 / 2) = Fin (3 / 2)"
  "rnd (1 / 2) = Fin (1 / 2)" "rnd (- (1 / 2)) = Fin (- (1 / 2))"
proof -
  show "rnd 1 = Fin 1" using rnd_int[of 1] by simp
  show "rnd 2 = Fin 2" using rnd_int[of 2] by simp
  show "rnd 4 = Fin 4" using rnd_int[of 4] by simp
  show "rnd (3 / 2) = Fin (3 / 2)" by (rule rnd_exact[of 3 "- 1"]) simp_all
  show "rnd (1 / 2) = Fin (1 / 2)" by (rule rnd_exact[of 1 "- 1"]) simp_all
  show "rnd (- (1 / 2)) = Fin (- (1 / 2))" by (rule rnd_exact[of "- 1" "- 1"]) simp_all
qed

subsection \<open>The grid of binary64 values\<close>

lemma powi_split:
  assumes "e' \<le> e"
  shows "(2::rat) powi e = of_int (2 ^ nat (e - e')) * 2 powi e'"
proof -
  have "(2::rat) powi e = 2 powi (e - e') * 2 powi e'"
    using power_int_add[of "2::rat" "e - e'" e'] by simp
  then show ?thesis using assms by (simp add: power_int_def)
qed

lemma ilog2_mono:
  assumes "0 < x" and "x \<le> y"
  shows "ilog2 x \<le> ilog2 y"
proof -
  have "x < 2 powi (ilog2 y + 1)" using assms ilog2_upper[of y] by simp
  then have "ilog2 x < ilog2 y + 1" using assms(1) by (rule ilog2_less[rotated])
  then show ?thesis by simp
qed

lemma qexp_mono:
  assumes "x \<noteq> 0" and "\<bar>x\<bar> \<le> \<bar>y\<bar>"
  shows "qexp x \<le> qexp y"
  using ilog2_mono[of "\<bar>x\<bar>" "\<bar>y\<bar>"] assms by (simp add: qexp_def)

lemma qexp_ge: "- 1074 \<le> qexp x"
  by (simp add: qexp_def)

lemma below_2_53:
  assumes "x \<noteq> 0"
  shows "\<bar>x\<bar> < 2 ^ 53 * quantum x"
proof -
  have "\<bar>x\<bar> < 2 powi (ilog2 \<bar>x\<bar> + 1)" using assms by (intro ilog2_upper) simp
  also have "\<dots> \<le> 2 powi (qexp x + 53)"
    by (intro power_int_increasing) (simp_all add: qexp_def)
  also have "\<dots> = 2 ^ 53 * quantum x"
    using power_int_add[of "2::rat" "qexp x" 53] by (simp add: quantum_def)
  finally show ?thesis .
qed

lemma qexp_le_971:
  assumes "x \<noteq> 0" and "\<bar>x\<bar> < 2 ^ 1024"
  shows "qexp x \<le> 971"
proof -
  have "\<bar>x\<bar> < 2 powi 1024" using assms(2) by simp
  then have "ilog2 \<bar>x\<bar> < 1024" using assms(1) by (intro ilog2_less) simp_all
  then show ?thesis by (simp add: qexp_def)
qed

lemma is_doubleI:
  assumes "(x::rat) = of_int m * 2 powi e" and "- 1074 \<le> e" and "e \<le> 971"
    and "\<bar>x\<bar> < 2 ^ 53 * 2 powi e"
  shows "is_double x"
proof -
  have p: "(0::rat) < 2 powi e" by simp
  have "of_int \<bar>m\<bar> * (2::rat) powi e < 2 ^ 53 * 2 powi e"
    using assms(4) unfolding assms(1) by (simp add: abs_mult)
  then have "(of_int \<bar>m\<bar> :: rat) < 2 ^ 53" using p by (simp only: mult_less_cancel_right_pos)
  then have "(of_int \<bar>m\<bar> :: rat) < of_int (2 ^ 53)" by simp
  then have "\<bar>m\<bar> < 2 ^ 53" by (simp only: of_int_less_iff)
  then show ?thesis unfolding is_double_def using assms(2,3,1) by (rule rnd_exact)
qed

lemma double_multiple:
  assumes "is_double x"
  shows "\<exists>m. x = of_int m * quantum x"
proof (cases "x = 0")
  case True
  then show ?thesis by (intro exI[of _ 0]) simp
next
  case False
  then have "x = of_int (round_even (x / quantum x)) * quantum x"
    using assms unfolding is_double_def rnd_def Let_def by (simp split: if_splits)
  then show ?thesis ..
qed

lemma double_bound:
  assumes "is_double x"
  shows "\<bar>x\<bar> < 2 ^ 1024"
proof (cases "x = 0")
  case True
  then show ?thesis by simp
next
  case False
  then show ?thesis
    using assms unfolding is_double_def rnd_def Let_def by (simp split: if_splits)
qed

lemma multiple_finer:
  assumes "(x::rat) = of_int m * 2 powi e" and "e' \<le> e"
  shows "\<exists>n. x = of_int n * 2 powi e'"
proof -
  have "x = of_int m * (of_int (2 ^ nat (e - e')) * 2 powi e')"
    unfolding assms(1) using powi_split[OF assms(2)] by simp
  then have "x = of_int (m * 2 ^ nat (e - e')) * 2 powi e'" by simp
  then show ?thesis ..
qed

lemma double_multiple_finer:
  assumes "is_double y" and "x \<noteq> 0" and "\<bar>x\<bar> \<le> \<bar>y\<bar>"
  shows "\<exists>n. y = of_int n * quantum x"
proof -
  obtain m where "y = of_int m * 2 powi (qexp y)"
    using double_multiple[OF assms(1)] by (auto simp: quantum_def)
  then show ?thesis
    unfolding quantum_def using qexp_mono[OF assms(2,3)] by (rule multiple_finer)
qed

lemma rnd_FinD:
  assumes "rnd x = Fin w" and "x \<noteq> 0"
  shows "w = of_int (round_even (x / quantum x)) * quantum x" and "\<bar>w\<bar> < 2 ^ 1024"
  using assms unfolding rnd_def Let_def by (simp_all split: if_splits)

lemma rnd_FinI:
  assumes "x \<noteq> 0" and "\<bar>of_int (round_even (x / quantum x)) * quantum x\<bar> < 2 ^ 1024"
  shows "rnd x = Fin (of_int (round_even (x / quantum x)) * quantum x)"
  using assms unfolding rnd_def Let_def by simp

lemma rnd_nonneg:
  assumes "0 \<le> x" and "rnd x = Fin v"
  shows "0 \<le> v"
proof (cases "x = 0")
  case True
  then show ?thesis using assms by (simp add: rnd_def)
next
  case False
  have "0 \<le> x / quantum x" using assms(1) quantum_pos[of x] by simp
  then have "0 \<le> round_even (x / quantum x)" using round_even_ge[of 0] by simp
  then have "(0::rat) \<le> of_int (round_even (x / quantum x)) * quantum x"
    using quantum_pos[of x] by simp
  then show ?thesis using rnd_FinD(1)[OF assms(2) False] by simp
qed

lemma rnd_upper:
  assumes "is_double y" and "0 \<le> x" and "x \<le> y"
  shows "\<exists>v. rnd x = Fin v \<and> 0 \<le> v \<and> v \<le> y"
proof (cases "x = 0")
  case True
  then show ?thesis using assms by (simp add: rnd_def)
next
  case False
  obtain n where n: "y = of_int n * quantum x"
    using double_multiple_finer[OF assms(1) False] assms(2,3) by auto
  have q: "0 < quantum x" by (rule quantum_pos)
  have "x / quantum x \<le> of_int n" using assms(3) q unfolding n by (simp add: field_simps)
  then have "round_even (x / quantum x) \<le> n" by (rule round_even_le)
  then have "(of_int (round_even (x / quantum x)) :: rat) \<le> of_int n" by (simp only: of_int_le_iff)
  then have le: "of_int (round_even (x / quantum x)) * quantum x \<le> y"
    unfolding n using q by (simp only: mult_le_cancel_right_pos)
  have "0 \<le> x / quantum x" using assms(2) q by simp
  then have "0 \<le> round_even (x / quantum x)" using round_even_ge[of 0] by simp
  then have ge: "(0::rat) \<le> of_int (round_even (x / quantum x)) * quantum x" using q by simp
  have "\<bar>of_int (round_even (x / quantum x)) * quantum x\<bar> < 2 ^ 1024"
    using le ge double_bound[OF assms(1)] by simp
  then have "rnd x = Fin (of_int (round_even (x / quantum x)) * quantum x)"
    using False by (intro rnd_FinI)
  then show ?thesis using le ge by simp
qed

lemma ilog2_ge:
  assumes "0 < x" and "2 powi k \<le> x"
  shows "k \<le> ilog2 x"
proof (rule ccontr)
  assume "\<not> k \<le> ilog2 x"
  then have "ilog2 x + 1 \<le> k" by simp
  then have "(2::rat) powi (ilog2 x + 1) \<le> 2 powi k" by (intro power_int_increasing) simp_all
  then show False using ilog2_upper[OF assms(1)] assms(2) by simp
qed

lemma is_double_0: "is_double 0"
  by (simp add: is_double_def rnd_def)

lemma is_double_minus:
  assumes "is_double x"
  shows "is_double (- x)"
  using assms by (simp add: is_double_def rnd_minus)

lemma quantum_eq: "quantum x = 2 powi (qexp x)"
  by (simp add: quantum_def)

lemma rnd_lower:
  assumes "is_double y" and "0 < y" and "y \<le> x"
  shows "rnd x = PInf \<or> (\<exists>v. rnd x = Fin v \<and> y \<le> v)"
proof -
  have x: "0 < x" "x \<noteq> 0" using assms by simp_all
  have q: "0 < quantum x" by (rule quantum_pos)
  define m where "m = round_even (x / quantum x)"
  have le: "qexp y \<le> qexp x" using assms by (intro qexp_mono) simp_all
  have yv: "y \<le> of_int m * quantum x"
  proof (cases "qexp y = qexp x")
    case True
    obtain n where n: "y = of_int n * quantum x"
      using double_multiple[OF assms(1)] True by (auto simp: quantum_def)
    have "of_int n \<le> x / quantum x" using assms(3) q unfolding n by (simp add: field_simps)
    then have "n \<le> m" unfolding m_def by (rule round_even_ge)
    then have "(of_int n :: rat) \<le> of_int m" by (simp only: of_int_le_iff)
    then show ?thesis unfolding n using q by (simp only: mult_le_cancel_right_pos)
  next
    case False
    then have lt: "qexp y + 1 \<le> qexp x" using le by simp
    then have "- 1074 < qexp x" using qexp_ge[of y] by simp
    then have e: "qexp x = ilog2 x - 52" using x by (simp add: qexp_def max_def split: if_splits)
    have "y < 2 ^ 53 * quantum y" using below_2_53[of y] assms(2) by simp
    also have "\<dots> = 2 powi (qexp y + 53)"
      using power_int_add[of "2::rat" "qexp y" 53] by (simp add: quantum_def)
    also have "\<dots> \<le> 2 powi (qexp x + 52)" using lt by (intro power_int_increasing) simp_all
    finally have y: "y < 2 powi (qexp x + 52)" .
    have p: "(2::rat) powi (qexp x + 52) = of_int (2 ^ 52) * quantum x"
      using power_int_add[of "2::rat" "qexp x" 52] by (simp add: quantum_def)
    have "2 powi (qexp x + 52) \<le> x" using ilog2_lower[OF x(1)] e by simp
    then have "of_int (2 ^ 52) \<le> x / quantum x" unfolding p using q by (simp add: field_simps)
    then have "2 ^ 52 \<le> m" unfolding m_def by (rule round_even_ge)
    then have "(of_int (2 ^ 52) :: rat) \<le> of_int m" by (simp only: of_int_le_iff)
    then have "of_int (2 ^ 52) * quantum x \<le> of_int m * quantum x"
      using q by (simp only: mult_le_cancel_right_pos)
    then show ?thesis using y unfolding p by simp
  qed
  show ?thesis
  proof (cases "2 ^ 1024 \<le> \<bar>of_int m * quantum x\<bar>")
    case True
    then show ?thesis using x by (simp add: rnd_def Let_def m_def)
  next
    case False
    then have "rnd x = Fin (of_int m * quantum x)" using x by (simp add: rnd_def Let_def m_def)
    then show ?thesis using yv by simp
  qed
qed

lemma rnd_le_twice:
  assumes "0 \<le> x" and "rnd x = Fin v"
  shows "v \<le> 2 * x"
proof (cases "x = 0")
  case True
  then show ?thesis using assms by (simp add: rnd_def)
next
  case False
  have q: "0 < quantum x" by (rule quantum_pos)
  define m where "m = round_even (x / quantum x)"
  have v: "v = of_int m * quantum x" using rnd_FinD(1)[OF assms(2) False] by (simp add: m_def)
  show ?thesis
  proof (cases "x / quantum x < 1 / 2")
    case True
    have "0 \<le> x / quantum x" using assms(1) q by simp
    moreover have "x / quantum x < 1" using True by linarith
    ultimately have "\<lfloor>x / quantum x\<rfloor> = 0" by (intro floor_unique) simp_all
    then have "m = 0" using True by (simp add: m_def round_even_def Let_def)
    then show ?thesis using v assms(1) by simp
  next
    case False
    then have h: "quantum x / 2 \<le> x" using q by (simp add: field_simps)
    have "of_int m \<le> x / quantum x + 1 / 2" unfolding m_def by (rule round_even_bounds)
    then have "of_int m * quantum x \<le> (x / quantum x + 1 / 2) * quantum x"
      using q by (simp only: mult_le_cancel_right_pos)
    also have "\<dots> = x + quantum x / 2" using q by (simp add: field_simps)
    finally show ?thesis using h v by simp
  qed
qed

lemma sterbenz:
  assumes "is_double x" and "is_double y" and "0 \<le> y" and "y \<le> x" and "x \<le> 2 * y"
  shows "is_double (x - y)"
proof (cases "y = 0")
  case True
  then show ?thesis using assms by (simp add: is_double_0)
next
  case False
  then have y: "0 < y" using assms(3) by simp
  obtain n where n: "y = of_int n * quantum y" using double_multiple[OF assms(2)] ..
  obtain n' where n': "x = of_int n' * quantum y"
    using double_multiple_finer[OF assms(1) False] assms(3,4) by auto
  have d: "x - y = of_int (n' - n) * 2 powi (qexp y)"
    using n n' by (simp add: quantum_def algebra_simps)
  have "\<bar>x - y\<bar> \<le> y" using assms(4,5) by simp
  also have "\<dots> < 2 ^ 53 * quantum y" using below_2_53[OF False] y by simp
  finally have b: "\<bar>x - y\<bar> < 2 ^ 53 * 2 powi (qexp y)" by (simp add: quantum_def)
  have "qexp y \<le> 971" using False double_bound[OF assms(2)] by (rule qexp_le_971)
  then show ?thesis using d qexp_ge b by (intro is_doubleI[of "x - y" "n' - n" "qexp y"])
qed

lemma half_double:
  assumes "is_double a" and "2 powi (- 1021) \<le> a"
  shows "is_double (a / 2)"
proof -
  have p: "(0::rat) < 2 powi (- 1021)" by simp
  have a: "0 < a" "a \<noteq> 0" using assms(2) p by simp_all
  have "- 1021 \<le> ilog2 a" using a(1) assms(2) by (rule ilog2_ge)
  then have e: "- 1073 \<le> qexp a" using a by (simp add: qexp_def)
  obtain m where m: "a = of_int m * quantum a" using double_multiple[OF assms(1)] ..
  have h: "(2::rat) powi (qexp a) = 2 * 2 powi (qexp a - 1)"
    using power_int_add[of "2::rat" "qexp a - 1" 1] by simp
  have d: "a / 2 = of_int m * 2 powi (qexp a - 1)"
    using m unfolding quantum_def h by simp
  have "\<bar>a\<bar> < 2 ^ 53 * quantum a" using a(2) by (rule below_2_53)
  then have b: "\<bar>a / 2\<bar> < 2 ^ 53 * 2 powi (qexp a - 1)"
    unfolding quantum_def h by simp
  have "qexp a \<le> 971" using a(2) double_bound[OF assms(1)] by (rule qexp_le_971)
  then show ?thesis using d e b by (intro is_doubleI[of "a / 2" m "qexp a - 1"]) simp_all
qed

lemma twice_double:
  assumes "is_double a" and "\<bar>a\<bar> < 2 ^ 1023"
  shows "is_double (2 * a)"
proof (cases "a = 0")
  case True
  then show ?thesis by (simp add: is_double_0)
next
  case False
  have "\<bar>a\<bar> < 2 powi 1023" using assms(2) by simp
  then have "ilog2 \<bar>a\<bar> < 1023" using False by (intro ilog2_less) simp_all
  then have e: "qexp a \<le> 970" by (simp add: qexp_def)
  obtain m where m: "a = of_int m * quantum a" using double_multiple[OF assms(1)] ..
  have h: "(2::rat) powi (qexp a + 1) = 2 * 2 powi (qexp a)"
    using power_int_add[of "2::rat" "qexp a" 1] by simp
  have d: "2 * a = of_int m * 2 powi (qexp a + 1)"
    using m unfolding quantum_def h by simp
  have "\<bar>a\<bar> < 2 ^ 53 * quantum a" using False by (rule below_2_53)
  then have b: "\<bar>2 * a\<bar> < 2 ^ 53 * 2 powi (qexp a + 1)"
    unfolding quantum_def h by simp
  show ?thesis using d e b qexp_ge[of a] by (intro is_doubleI[of "2 * a" m "qexp a + 1"]) simp_all
qed

lemma low_exact:
  assumes "is_double a" and "is_double t" and "\<bar>a - t\<bar> < 2 powi (- 1021)"
  shows "is_double (a - t)"
proof -
  obtain k where k: "a = of_int k * 2 powi (- 1074)" using double_grid[OF assms(1)] ..
  obtain l where l: "t = of_int l * 2 powi (- 1074)" using double_grid[OF assms(2)] ..
  have d: "a - t = of_int (k - l) * 2 powi (- 1074)" unfolding k l by (simp add: algebra_simps)
  have "(2::rat) powi (- 1021) = 2 ^ 53 * 2 powi (- 1074)"
    using power_int_add[of "2::rat" "- 1074" 53] by simp
  then have b: "\<bar>a - t\<bar> < 2 ^ 53 * 2 powi (- 1074)" using assms(3) by (simp only:)
  show ?thesis by (rule is_doubleI[OF d _ _ b]) simp_all
qed

lemma powi_less_imp:
  assumes "(2::rat) powi a < 2 powi b"
  shows "a < b"
proof (rule ccontr)
  assume "\<not> a < b"
  then have "(2::rat) powi b \<le> 2 powi a" by (intro power_int_increasing) simp_all
  then show False using assms by simp
qed

lemma rnd_idem_pos:
  assumes "0 < x" and "rnd x = Fin v"
  shows "is_double v"
proof -
  have x: "x \<noteq> 0" using assms(1) by simp
  have q: "0 < quantum x" by (rule quantum_pos)
  define m where "m = round_even (x / quantum x)"
  have v: "v = of_int m * 2 powi (qexp x)" and b: "\<bar>v\<bar> < 2 ^ 1024"
    using rnd_FinD[OF assms(2) x] by (simp_all add: m_def quantum_def)
  have "0 \<le> x / quantum x" using assms(1) q by simp
  then have m0: "0 \<le> m" unfolding m_def using round_even_ge[of 0] by simp
  have "\<bar>x\<bar> < 2 ^ 53 * quantum x" using x by (rule below_2_53)
  then have "x / quantum x \<le> of_int (2 ^ 53)" using assms(1) q by (simp add: field_simps)
  then have m53: "m \<le> 2 ^ 53" unfolding m_def by (rule round_even_le)
  have v0: "0 \<le> v" using assms by (intro rnd_nonneg[of x v]) simp_all
  have vlt: "v < 2 powi 1024" using b v0 by simp
  show ?thesis
  proof (cases "m = 2 ^ 53")
    case True
    have h: "(2::rat) powi (qexp x + 53) = 2 ^ 53 * 2 powi (qexp x)"
      using power_int_add[of "2::rat" "qexp x" 53] by simp
    have h1: "(2::rat) powi (qexp x + 53) = 2 ^ 52 * 2 powi (qexp x + 1)"
      using power_int_add[of "2::rat" "qexp x + 1" 52] by (simp add: add.commute)
    have ve: "v = 2 powi (qexp x + 53)" unfolding v True h by simp
    then have "qexp x + 53 < 1024" using vlt by (intro powi_less_imp) simp
    then have e: "qexp x + 1 \<le> 971" by simp
    have d: "v = of_int (2 ^ 52) * 2 powi (qexp x + 1)" unfolding ve h1 by simp
    have "\<bar>v\<bar> < 2 ^ 53 * 2 powi (qexp x + 1)" unfolding ve h1 by simp
    then show ?thesis using qexp_ge[of x] e by (intro is_doubleI[OF d]) simp_all
  next
    case False
    then have mlt: "m < 2 ^ 53" using m53 by simp
    then have "(of_int m :: rat) < of_int (2 ^ 53)" by (simp only: of_int_less_iff)
    then have "of_int m * (2::rat) powi (qexp x) < of_int (2 ^ 53) * 2 powi (qexp x)"
      by (simp only: mult_less_cancel_right_pos zero_less_power_int zero_less_numeral)
    then have bb: "\<bar>v\<bar> < 2 ^ 53 * 2 powi (qexp x)" using v v0 by simp
    have e: "qexp x \<le> 971"
    proof (cases "qexp x = - 1074")
      case True
      then show ?thesis by simp
    next
      case False
      then have ex: "qexp x = ilog2 x - 52" using assms(1) by (simp add: qexp_def max_def split: if_splits)
      have p: "(2::rat) powi (qexp x + 52) = of_int (2 ^ 52) * quantum x"
        using power_int_add[of "2::rat" "qexp x" 52] by (simp add: quantum_def)
      have "2 powi (qexp x + 52) \<le> x" using ilog2_lower[OF assms(1)] ex by simp
      then have "of_int (2 ^ 52) \<le> x / quantum x" unfolding p using q by (simp add: field_simps)
      then have "2 ^ 52 \<le> m" unfolding m_def by (rule round_even_ge)
      then have "(of_int (2 ^ 52) :: rat) \<le> of_int m" by (simp only: of_int_le_iff)
      then have "of_int (2 ^ 52) * quantum x \<le> of_int m * quantum x"
        using q by (simp only: mult_le_cancel_right_pos)
      then have "2 powi (qexp x + 52) \<le> v" unfolding p v quantum_def .
      then have "(2::rat) powi (qexp x + 52) < 2 powi 1024" using vlt by simp
      then have "qexp x + 52 < 1024" by (rule powi_less_imp)
      then show ?thesis by simp
    qed
    show ?thesis using qexp_ge[of x] e bb by (intro is_doubleI[OF v]) simp_all
  qed
qed

lemma rnd_idem:
  assumes "rnd x = Fin v"
  shows "is_double v"
proof -
  consider "x = 0" | "0 < x" | "x < 0" by linarith
  then show ?thesis
  proof cases
    case 1
    then show ?thesis using assms by (auto simp: rnd_def is_double_0)
  next
    case 2
    then show ?thesis using assms by (rule rnd_idem_pos)
  next
    case 3
    have "rnd (- x) = Fin (- v)" using assms by (simp add: rnd_minus)
    then have "is_double (- v)" using 3 by (intro rnd_idem_pos[of "- x"]) simp_all
    then show ?thesis using is_double_minus[of "- v"] by simp
  qed
qed

lemma roundtrip_exact:
  assumes "is_double a" and "is_double t" and "is_double (a - t)"
  shows "fadd (fsub (Fin a) (fsub (Fin a) (Fin t))) (fsub (Fin a) (Fin t)) = Fin a"
proof -
  have 1: "fsub (Fin a) (Fin t) = Fin (a - t)"
    using assms(3) by (simp add: fsub_def is_double_def)
  have 2: "fsub (Fin a) (Fin (a - t)) = Fin t"
    using assms(2) by (simp add: fsub_def is_double_def)
  have 3: "fadd (Fin t) (Fin (a - t)) = Fin a"
    using assms(1) by (simp add: is_double_def)
  show ?thesis unfolding 1 2 3 ..
qed

lemma leftover_roundtrip:
  assumes "is_double a" and "is_double t" and "0 \<le> t" and "t \<le> 2 * a"
  shows "fadd (fsub (Fin a) (fsub (Fin a) (Fin t))) (fsub (Fin a) (Fin t)) = Fin a"
proof -
  have a0: "0 \<le> a" using assms(3,4) by simp
  consider "a < 2 powi (- 1021)" | "2 powi (- 1021) \<le> a" "a \<le> 2 * t" | "2 powi (- 1021) \<le> a" "2 * t < a"
    by linarith
  then show ?thesis
  proof cases
    case 1
    have "\<bar>a - t\<bar> \<le> a" using assms(3,4) by simp
    then have "\<bar>a - t\<bar> < 2 powi (- 1021)" using 1 by simp
    then have "is_double (a - t)" using assms(1,2) by (intro low_exact)
    then show ?thesis using assms(1,2) by (intro roundtrip_exact)
  next
    case 2
    have "is_double (a - t)"
    proof (cases "t \<le> a")
      case True
      then show ?thesis using assms 2 by (intro sterbenz) simp_all
    next
      case False
      then have "is_double (t - a)" using assms a0 by (intro sterbenz) simp_all
      then show ?thesis using is_double_minus[of "t - a"] by simp
    qed
    then show ?thesis using assms(1,2) by (intro roundtrip_exact)
  next
    case 3
    have h: "is_double (a / 2)" using assms(1) 3(1) by (rule half_double)
    have p: "(0::rat) < 2 powi (- 1021)" by simp
    have apos: "0 < a" using 3(1) p by simp
    obtain v where v: "rnd (a - t) = Fin v" "0 \<le> v" "v \<le> a"
      using rnd_upper[OF assms(1), of "a - t"] assms(3) 3(2) by auto
    have "rnd (a - t) = PInf \<or> (\<exists>w. rnd (a - t) = Fin w \<and> a / 2 \<le> w)"
      using h apos 3(2) by (intro rnd_lower) simp_all
    then have vh: "a / 2 \<le> v" using v(1) by auto
    have dv: "is_double v" using v(1) by (rule rnd_idem)
    have "is_double (a - v)" using assms(1) dv v(2,3) vh by (intro sterbenz) simp_all
    then have 2: "fsub (Fin a) (Fin v) = Fin (a - v)" by (simp add: fsub_def is_double_def)
    have 1: "fsub (Fin a) (Fin t) = Fin v" using v(1) by (simp add: fsub_def)
    have 3: "fadd (Fin (a - v)) (Fin v) = Fin a" using assms(1) by (simp add: is_double_def)
    show ?thesis unfolding 1 2 3 ..
  qed
qed

lemma fmod_pos:
  assumes "0 \<le> q" and "0 < s"
  shows "fmod (Fin q) (Fin s) = Fin (q - s * of_int \<lfloor>q / s\<rfloor>)"
    and "0 \<le> q - s * of_int \<lfloor>q / s\<rfloor>" and "q - s * of_int \<lfloor>q / s\<rfloor> \<le> q"
proof -
  have d: "0 \<le> q / s" using assms by simp
  then show "fmod (Fin q) (Fin s) = Fin (q - s * of_int \<lfloor>q / s\<rfloor>)"
    using assms by (simp add: trunc_def)
  have "of_int \<lfloor>q / s\<rfloor> \<le> q / s" by simp
  then have "s * of_int \<lfloor>q / s\<rfloor> \<le> s * (q / s)" using assms(2) by (simp only: mult_le_cancel_left_pos)
  then show "0 \<le> q - s * of_int \<lfloor>q / s\<rfloor>" using assms(2) by simp
  have "0 \<le> \<lfloor>q / s\<rfloor>" using d by simp
  then have "0 \<le> s * of_int \<lfloor>q / s\<rfloor>" using assms(2) by simp
  then show "q - s * of_int \<lfloor>q / s\<rfloor> \<le> q" by simp
qed

section \<open>Facts about the sort\<close>

lemma consistent_refl: "consistent c S \<Longrightarrow> a \<in> S \<Longrightarrow> sortsEqual c a a"
  unfolding consistent_def by blast

lemma consistent_sym:
  "consistent c S \<Longrightarrow> a \<in> S \<Longrightarrow> b \<in> S \<Longrightarrow> sortsEqual c a b \<Longrightarrow> sortsEqual c b a"
  unfolding consistent_def by blast

lemma consistent_eq_trans:
  "consistent c S \<Longrightarrow> a \<in> S \<Longrightarrow> b \<in> S \<Longrightarrow> x \<in> S
   \<Longrightarrow> sortsEqual c a b \<Longrightarrow> sortsEqual c b x \<Longrightarrow> sortsEqual c a x"
  unfolding consistent_def by blast

lemma consistent_trans:
  "consistent c S \<Longrightarrow> a \<in> S \<Longrightarrow> b \<in> S \<Longrightarrow> x \<in> S
   \<Longrightarrow> sortsBefore c a b \<Longrightarrow> sortsBefore c b x \<Longrightarrow> sortsBefore c a x"
  unfolding consistent_def by blast

lemma consistent_after_trans:
  "consistent c S \<Longrightarrow> a \<in> S \<Longrightarrow> b \<in> S \<Longrightarrow> x \<in> S
   \<Longrightarrow> sortsAfter c a b \<Longrightarrow> sortsAfter c b x \<Longrightarrow> sortsAfter c a x"
  unfolding consistent_def by blast

lemma consistent_irrefl:
  assumes "consistent c S" "a \<in> S"
  shows "\<not> sortsBefore c a a" "\<not> sortsAfter c a a"
  using consistent_refl[OF assms] by (simp_all add: sortsEqual_def)

lemma consistent_after:
  assumes "consistent c S" "a \<in> S" "b \<in> S"
  shows "sortsAfter c a b \<longleftrightarrow> sortsBefore c b a"
proof
  assume g: "sortsAfter c a b"
  show "sortsBefore c b a"
  proof (rule ccontr)
    assume n: "\<not> sortsBefore c b a"
    show False
    proof (cases "sortsAfter c b a")
      case True
      then have "sortsAfter c a a" using consistent_after_trans[OF assms(1,2,3,2) g] by simp
      then show False using consistent_irrefl[OF assms(1,2)] by simp
    next
      case False
      then have "sortsEqual c b a" using n by (simp add: sortsEqual_def)
      then have "sortsEqual c a b" using consistent_sym[OF assms(1,3,2)] by simp
      then show False using g by (simp add: sortsEqual_def)
    qed
  qed
next
  assume l: "sortsBefore c b a"
  show "sortsAfter c a b"
  proof (rule ccontr)
    assume n: "\<not> sortsAfter c a b"
    show False
    proof (cases "sortsBefore c a b")
      case True
      then have "sortsBefore c b b" using consistent_trans[OF assms(1,3,2,3) l] by simp
      then show False using consistent_irrefl[OF assms(1,3)] by simp
    next
      case False
      then have "sortsEqual c a b" using n by (simp add: sortsEqual_def)
      then have "sortsEqual c b a" using consistent_sym[OF assms(1,2,3)] by simp
      then show False using l by (simp add: sortsEqual_def)
    qed
  qed
qed

lemma sortsEqual_iff:
  assumes "consistent c S" "a \<in> S" "b \<in> S"
  shows "sortsEqual c a b \<longleftrightarrow> \<not> sortsBefore c a b \<and> \<not> sortsBefore c b a"
  using consistent_after[OF assms] by (simp add: sortsEqual_def)

lemma consistent_asym:
  assumes "consistent c S" "a \<in> S" "b \<in> S" "sortsBefore c a b"
  shows "\<not> sortsBefore c b a"
proof
  assume "sortsBefore c b a"
  then have "sortsBefore c a a" using consistent_trans[OF assms(1,2,3,2) assms(4)] by simp
  then show False using consistent_irrefl[OF assms(1,2)] by simp
qed

lemma consistent_ntrans:
  assumes "consistent c S" "a \<in> S" "b \<in> S" "x \<in> S"
    and ab: "\<not> sortsBefore c a b" and bx: "\<not> sortsBefore c b x"
  shows "\<not> sortsBefore c a x"
proof
  assume ax: "sortsBefore c a x"
  show False
  proof (cases "sortsBefore c b a")
    case ba: True
    then have "sortsBefore c b x" using consistent_trans[OF assms(1,3,2,4) ba ax] by simp
    then show False using bx by simp
  next
    case nba: False
    then have e1: "sortsEqual c a b" using ab sortsEqual_iff[OF assms(1,2,3)] by simp
    show False
    proof (cases "sortsBefore c x b")
      case xb: True
      then have "sortsBefore c a b" using consistent_trans[OF assms(1,2,4,3) ax xb] by simp
      then show False using ab by simp
    next
      case False
      then have e2: "sortsEqual c b x" using bx sortsEqual_iff[OF assms(1,3,4)] by simp
      have "sortsEqual c a x" using consistent_eq_trans[OF assms(1,2,3,4) e1 e2] .
      then show False using ax by (simp add: sortsEqual_def)
    qed
  qed
qed

lemma binarySearch_bounds:
  "left \<le> right \<Longrightarrow> left \<le> binarySearch c p ys left right \<and> binarySearch c p ys left right \<le> right"
proof (induction c p ys left right rule: binarySearch.induct)
  case (1 c p ys left right)
  show ?case
  proof (cases "left < right")
    case False
    then show ?thesis using 1 by (subst binarySearch.simps, subst (2) binarySearch.simps) simp
  next
    case True
    define mid where "mid = left + (right - left) div 2"
    have m: "left \<le> mid" "mid < right" using True by (simp_all add: mid_def) 
    show ?thesis
    proof (cases "flt (c p (ys ! mid)) (Fin 0)")
      case t: True
      have "left \<le> binarySearch c p ys left mid \<and> binarySearch c p ys left mid \<le> mid"
        using 1(1)[OF True mid_def t] m by simp
      moreover have "binarySearch c p ys left right = binarySearch c p ys left mid"
        using True t by (subst binarySearch.simps) (simp add: mid_def Let_def)
      ultimately show ?thesis using m by simp
    next
      case f: False
      have "mid + 1 \<le> binarySearch c p ys (mid + 1) right \<and> binarySearch c p ys (mid + 1) right \<le> right"
        using 1(2)[OF True mid_def f] m by simp
      moreover have "binarySearch c p ys left right = binarySearch c p ys (mid + 1) right"
        using True f by (subst binarySearch.simps) (simp add: mid_def Let_def)
      ultimately show ?thesis using m by simp
    qed
  qed
qed

lemma binarySearch_partition:
  assumes "consistent c S" and "set ys \<subseteq> S" and "p \<in> S"
    and "sorted_wrt (\<lambda>a b. \<not> sortsBefore c b a) ys"
    and "left \<le> right" and "right \<le> length ys"
    and "\<forall>i<left. \<not> sortsBefore c p (ys ! i)"
    and "\<forall>i. right \<le> i \<and> i < length ys \<longrightarrow> sortsBefore c p (ys ! i)"
  shows "(\<forall>i<binarySearch c p ys left right. \<not> sortsBefore c p (ys ! i))
      \<and> (\<forall>i. binarySearch c p ys left right \<le> i \<and> i < length ys \<longrightarrow> sortsBefore c p (ys ! i))"
  using assms
proof (induction c p ys left right rule: binarySearch.induct)
  case (1 c p ys left right)
  note con = 1(3) and sub = 1(4) and p = 1(5) and srt = 1(6)
  show ?case
  proof (cases "left < right")
    case False
    then have "binarySearch c p ys left right = left"
      by (subst binarySearch.simps) simp
    moreover have "left = right" using False 1(7) by simp
    ultimately show ?thesis using 1(9,10) by simp
  next
    case True
    define mid where "mid = left + (right - left) div 2"
    have m: "left \<le> mid" "mid < right" using True by (simp_all add: mid_def)
    have ml: "mid < length ys" using m 1(8) by simp
    have ym: "ys ! mid \<in> S" using ml sub by auto
    show ?thesis
    proof (cases "flt (c p (ys ! mid)) (Fin 0)")
      case t: True
      have lt: "sortsBefore c p (ys ! mid)" using t by (simp add: sortsBefore_def)
      have up: "\<forall>i. mid \<le> i \<and> i < length ys \<longrightarrow> sortsBefore c p (ys ! i)"
      proof (intro allI impI)
        fix i assume i: "mid \<le> i \<and> i < length ys"
        have yi: "ys ! i \<in> S" using i sub by auto
        show "sortsBefore c p (ys ! i)"
        proof (cases "i = mid")
          case True
          then show ?thesis using lt by simp
        next
          case False
          then have "mid < i" using i by simp
          then have "\<not> sortsBefore c (ys ! i) (ys ! mid)"
            using srt i by (simp add: sorted_wrt_iff_nth_less)
          then show ?thesis using consistent_ntrans[OF con p yi ym] lt by blast
        qed
      qed
      have e: "binarySearch c p ys left right = binarySearch c p ys left mid"
        using True t by (subst binarySearch.simps) (simp add: mid_def Let_def)
      show ?thesis unfolding e
        using 1(1)[OF True mid_def t con sub p srt m(1) _ 1(9) up] ml by simp
    next
      case f: False
      have nlt: "\<not> sortsBefore c p (ys ! mid)" using f by (simp add: sortsBefore_def)
      have lo: "\<forall>i<mid + 1. \<not> sortsBefore c p (ys ! i)"
      proof (intro allI impI)
        fix i assume i: "i < mid + 1"
        have yi: "ys ! i \<in> S" using i ml sub by auto
        show "\<not> sortsBefore c p (ys ! i)"
        proof (cases "i = mid")
          case True
          then show ?thesis using nlt by simp
        next
          case False
          then have "i < mid" using i by simp
          then have "\<not> sortsBefore c (ys ! mid) (ys ! i)"
            using srt ml by (simp add: sorted_wrt_iff_nth_less)
          then show ?thesis using consistent_ntrans[OF con p ym yi] nlt by blast
        qed
      qed
      have e: "binarySearch c p ys left right = binarySearch c p ys (mid + 1) right"
        using True f by (subst binarySearch.simps) (simp add: mid_def Let_def)
      show ?thesis unfolding e
        using 1(2)[OF True mid_def f con sub p srt _ 1(8) lo 1(10)] m by simp
    qed
  qed
qed

lemma mset_insertPivot: "mset (insertPivot c ys p) = add_mset p (mset ys)"
proof -
  have "mset (take k ys) + mset (drop k ys) = mset ys" for k
    unfolding mset_append[symmetric] by simp
  then have "mset (take k ys @ p # drop k ys) = add_mset p (mset ys)" for k
    by simp
  then show ?thesis by (simp only: insertPivot_def Let_def)
qed

lemma set_insertPivot: "set (insertPivot c ys p) = insert p (set ys)"
  using mset_insertPivot[of c ys p] by (metis set_mset_add_mset_insert set_mset_mset)

lemma insertPivot_split:
  assumes "consistent c S" and "set ys \<subseteq> S" and "p \<in> S"
    and "sorted_wrt (\<lambda>a b. \<not> sortsBefore c b a) ys"
  shows "\<exists>lo hi. ys = lo @ hi \<and> insertPivot c ys p = lo @ p # hi
           \<and> (\<forall>a\<in>set lo. \<not> sortsBefore c p a) \<and> (\<forall>b\<in>set hi. sortsBefore c p b)"
proof -
  define k where "k = binarySearch c p ys 0 (length ys)"
  have b: "k \<le> length ys" using binarySearch_bounds[of 0 "length ys" c p ys] by (simp add: k_def)
  have part: "(\<forall>i<k. \<not> sortsBefore c p (ys ! i))
      \<and> (\<forall>i. k \<le> i \<and> i < length ys \<longrightarrow> sortsBefore c p (ys ! i))"
    unfolding k_def by (rule binarySearch_partition[OF assms]) auto
  have lo: "\<forall>a\<in>set (take k ys). \<not> sortsBefore c p a"
  proof
    fix a assume "a \<in> set (take k ys)"
    then obtain i where i: "i < length (take k ys)" "take k ys ! i = a"
      unfolding in_set_conv_nth by blast
    then have "i < k" "ys ! i = a" by simp_all
    then show "\<not> sortsBefore c p a" using part by blast
  qed
  have hi: "\<forall>b\<in>set (drop k ys). sortsBefore c p b"
  proof
    fix a assume "a \<in> set (drop k ys)"
    then obtain i where i: "i < length (drop k ys)" "drop k ys ! i = a"
      unfolding in_set_conv_nth by blast
    then have "k \<le> k + i \<and> k + i < length ys" "ys ! (k + i) = a" using b by simp_all
    then show "sortsBefore c p a" using part by blast
  qed
  have "insertPivot c ys p = take k ys @ p # drop k ys"
    by (simp add: insertPivot_def k_def Let_def)
  then show ?thesis using lo hi by (intro exI[of _ "take k ys"] exI[of _ "drop k ys"]) simp
qed

lemma sorted_insertPivot:
  assumes "consistent c S" and "set ys \<subseteq> S" and "p \<in> S"
    and "sorted_wrt (\<lambda>a b. \<not> sortsBefore c b a) ys"
  shows "sorted_wrt (\<lambda>a b. \<not> sortsBefore c b a) (insertPivot c ys p)"
proof -
  obtain lo hi where s: "ys = lo @ hi" "insertPivot c ys p = lo @ p # hi"
    and lo: "\<forall>a\<in>set lo. \<not> sortsBefore c p a" and hi: "\<forall>b\<in>set hi. sortsBefore c p b"
    using insertPivot_split[OF assms] by blast
  have "\<not> sortsBefore c b p" if "b \<in> set hi" for b
    using consistent_asym[OF assms(1) assms(3), of b] that hi assms(2) s(1) by auto
  then have "sorted_wrt (\<lambda>a b. \<not> sortsBefore c b a) (lo @ p # hi)"
    using assms(4) lo unfolding s(1) by (auto simp: sorted_wrt_append)
  then show ?thesis by (simp only: s(2))
qed

lemma filter_insertPivot:
  assumes "consistent c S" and "set ys \<subseteq> S" and "p \<in> S" and "x \<in> S"
    and "sorted_wrt (\<lambda>a b. \<not> sortsBefore c b a) ys"
  shows "filter (sortsEqual c x) (insertPivot c ys p) = filter (sortsEqual c x) (ys @ [p])"
proof -
  obtain lo hi where s: "ys = lo @ hi" "insertPivot c ys p = lo @ p # hi"
    and lo: "\<forall>a\<in>set lo. \<not> sortsBefore c p a" and hi: "\<forall>b\<in>set hi. sortsBefore c p b"
    using insertPivot_split[OF assms(1,2,3,5)] by blast
  show ?thesis
  proof (cases "sortsEqual c x p")
    case False
    then have "filter (sortsEqual c x) (lo @ p # hi) = filter (sortsEqual c x) ((lo @ hi) @ [p])"
      by simp
    then show ?thesis by (simp only: s(2) s(1)[symmetric])
  next
    case True
    have "\<not> sortsEqual c x b" if "b \<in> set hi" for b
    proof
      assume e: "sortsEqual c x b"
      have bS: "b \<in> S" using that assms(2) s(1) by auto
      have "sortsEqual c p x" using consistent_sym[OF assms(1,4,3) True] .
      then have "sortsEqual c p b" using consistent_eq_trans[OF assms(1,3,4) bS _ e] by simp
      then show False using hi that by (simp add: sortsEqual_def)
    qed
    then have "filter (sortsEqual c x) hi = []" by (simp add: filter_empty_conv)
    then have "filter (sortsEqual c x) (lo @ p # hi) = filter (sortsEqual c x) ((lo @ hi) @ [p])"
      using True by simp
    then show ?thesis by (simp only: s(2) s(1)[symmetric])
  qed
qed

lemma mset_BinaryInsertionSort: "mset (BinaryInsertionSort c front rest) = mset front + mset rest"
  unfolding BinaryInsertionSort_def
  by (induction rest arbitrary: front) (simp_all add: mset_insertPivot)

lemma BinaryInsertionSort_sorted:
  assumes "consistent c S"
  shows "set front \<subseteq> S \<Longrightarrow> set rest \<subseteq> S \<Longrightarrow> sorted_wrt (\<lambda>a b. \<not> sortsBefore c b a) front
    \<Longrightarrow> sorted_wrt (\<lambda>a b. \<not> sortsBefore c b a) (BinaryInsertionSort c front rest)"
  unfolding BinaryInsertionSort_def
proof (induction rest arbitrary: front)
  case Nil
  then show ?case by simp
next
  case (Cons p rest)
  have "sorted_wrt (\<lambda>a b. \<not> sortsBefore c b a) (insertPivot c front p)"
    using sorted_insertPivot[OF assms Cons.prems(1) _ Cons.prems(3), of p] Cons.prems(2) by simp
  moreover have "set (insertPivot c front p) \<subseteq> S"
    using Cons.prems by (simp add: set_insertPivot)
  ultimately show ?case using Cons.IH[of "insertPivot c front p"] Cons.prems(2) by simp
qed

lemma BinaryInsertionSort_stable:
  assumes "consistent c S" and "x \<in> S"
  shows "set front \<subseteq> S \<Longrightarrow> set rest \<subseteq> S \<Longrightarrow> sorted_wrt (\<lambda>a b. \<not> sortsBefore c b a) front
    \<Longrightarrow> filter (sortsEqual c x) (BinaryInsertionSort c front rest)
        = filter (sortsEqual c x) (front @ rest)"
  unfolding BinaryInsertionSort_def
proof (induction rest arbitrary: front)
  case Nil
  then show ?case by simp
next
  case (Cons p rest)
  have pS: "p \<in> S" using Cons.prems(2) by simp
  have s: "sorted_wrt (\<lambda>a b. \<not> sortsBefore c b a) (insertPivot c front p)"
    using sorted_insertPivot[OF assms(1) Cons.prems(1) pS Cons.prems(3)] .
  have sub: "set (insertPivot c front p) \<subseteq> S"
    using Cons.prems by (simp add: set_insertPivot)
  have "filter (sortsEqual c x) (foldl (insertPivot c) (insertPivot c front p) rest)
        = filter (sortsEqual c x) (insertPivot c front p @ rest)"
    using Cons.IH[OF sub _ s] Cons.prems(2) by simp
  also have "\<dots> = filter (sortsEqual c x) ((front @ [p]) @ rest)"
    using filter_insertPivot[OF assms(1) Cons.prems(1) pS assms(2) Cons.prems(3)] by simp
  finally show ?case by simp
qed

lemma runLength_chain:
  "successively (\<lambda>a b. flt (c b a) (Fin 0) = d) (prev # take (runLength c d prev rest) rest)"
  by (induction rest arbitrary: prev) simp_all

lemma filter_rev_descending:
  assumes "consistent c S" and "x \<in> S"
  shows "set front \<subseteq> S \<Longrightarrow> sorted_wrt (\<lambda>a b. sortsBefore c b a) front
    \<Longrightarrow> filter (sortsEqual c x) (rev front) = filter (sortsEqual c x) front"
proof (induction front)
  case Nil
  then show ?case by simp
next
  case (Cons a front)
  have aS: "a \<in> S" using Cons.prems by simp
  have ih: "filter (sortsEqual c x) (rev front) = filter (sortsEqual c x) front"
    using Cons by simp
  show ?case
  proof (cases "sortsEqual c x a")
    case False
    then show ?thesis using ih by simp
  next
    case True
    have "\<not> sortsEqual c x b" if "b \<in> set front" for b
    proof
      assume e: "sortsEqual c x b"
      have bS: "b \<in> S" using that Cons.prems by auto
      have "sortsEqual c b x" using consistent_sym[OF assms(1,2) bS e] .
      then have "sortsEqual c b a" using consistent_eq_trans[OF assms(1) bS assms(2) aS _ True] by simp
      moreover have "sortsBefore c b a" using Cons.prems(2) that by simp
      ultimately show False by (simp add: sortsEqual_def)
    qed
    then have "filter (sortsEqual c x) front = []" by (simp add: filter_empty_conv)
    then show ?thesis using ih True by simp
  qed
qed

lemma CountAndMakeRun_mset:
  assumes "CountAndMakeRun c xs = (front, rest)"
  shows "mset front + mset rest = mset xs"
proof -
  have t: "mset (take n xs) + mset (drop n xs) = mset xs" for n
    unfolding mset_append[symmetric] by simp
  have r: "mset (rev (take n xs)) + mset (drop n xs) = mset xs" for n
    using t[of n] by simp
  show ?thesis
  proof (cases xs)
    case Nil
    then show ?thesis using assms by (simp add: CountAndMakeRun_def)
  next
    case (Cons h tl)
    show ?thesis
    proof (cases tl)
      case Nil
      then show ?thesis using assms Cons by (simp add: CountAndMakeRun_def)
    next
      case (Cons l rest')
      define d where "d = flt (c l h) (Fin 0)"
      define n where "n = 2 + runLength c d l rest'"
      have "CountAndMakeRun c xs = (if d then rev (take n xs) else take n xs, drop n xs)"
        unfolding \<open>xs = h # tl\<close> Cons d_def n_def
        by (simp only: CountAndMakeRun_def list.case Let_def)
      then have "front = (if d then rev (take n xs) else take n xs)" "rest = drop n xs"
        using assms by simp_all
      then show ?thesis using t[of n] r[of n] by (cases d) simp_all
    qed
  qed
qed

lemma CountAndMakeRun_sorted:
  assumes "CountAndMakeRun c xs = (front, rest)" and "consistent c S" and "set xs \<subseteq> S"
  shows "sorted_wrt (\<lambda>a b. \<not> sortsBefore c b a) front
       \<and> (\<forall>x\<in>S. filter (sortsEqual c x) (front @ rest) = filter (sortsEqual c x) xs)"
proof (cases xs)
  case Nil
  then show ?thesis using assms by (simp add: CountAndMakeRun_def)
next
  case (Cons h tl)
  show ?thesis
  proof (cases tl)
    case Nil
    then show ?thesis using assms Cons by (auto simp: CountAndMakeRun_def)
  next
    case tl: (Cons l rest')
    define d where "d = flt (c l h) (Fin 0)"
    define n where "n = 2 + runLength c d l rest'"
    define pre where "pre = take n xs"
    have "CountAndMakeRun c xs = (if d then rev (take n xs) else take n xs, drop n xs)"
      unfolding Cons tl d_def n_def
      by (simp only: CountAndMakeRun_def list.case Let_def)
    then have rr: "front = (if d then rev pre else pre)" "rest = drop n xs"
      using assms(1) by (simp_all add: pre_def)
    have pre: "pre = h # l # take (runLength c d l rest') rest'"
      by (simp add: pre_def n_def Cons tl)
    have sub: "set pre \<subseteq> S" using assms(3) set_take_subset[of n xs] by (auto simp: pre_def)
    have ch: "successively (\<lambda>a b. flt (c b a) (Fin 0) = d) pre"
      unfolding pre using runLength_chain[of c d l rest'] by (simp add: d_def)
    have id: "pre @ rest = xs" by (simp add: pre_def rr)
    show ?thesis
    proof (cases d)
      case False
      have "successively (\<lambda>a b. \<not> sortsBefore c b a) pre"
        using ch False by (simp add: sortsBefore_def)
      moreover have "successively (\<lambda>a b. \<not> sortsBefore c b a) pre
          = sorted_wrt (\<lambda>a b. \<not> sortsBefore c b a) pre"
      proof (rule successively_iff_sorted_wrt_strong)
        fix x y z assume "x \<in> set pre" "y \<in> set pre" "z \<in> set pre"
          "\<not> sortsBefore c y x" "\<not> sortsBefore c z y"
        then show "\<not> sortsBefore c z x"
          using consistent_ntrans[OF assms(2), of z y x] sub by auto
      qed
      ultimately show ?thesis using False rr id by simp
    next
      case True
      have "successively (\<lambda>a b. sortsBefore c b a) pre"
        using ch True by (simp add: sortsBefore_def)
      moreover have "successively (\<lambda>a b. sortsBefore c b a) pre
          = sorted_wrt (\<lambda>a b. sortsBefore c b a) pre"
      proof (rule successively_iff_sorted_wrt_strong)
        fix x y z assume "x \<in> set pre" "y \<in> set pre" "z \<in> set pre"
          "sortsBefore c y x" "sortsBefore c z y"
        then show "sortsBefore c z x"
          using consistent_trans[OF assms(2), of z y x] sub by auto
      qed
      ultimately have desc: "sorted_wrt (\<lambda>a b. sortsBefore c b a) pre" by simp
      then have "sorted_wrt (\<lambda>a b. sortsBefore c a b) (rev pre)"
        by (simp add: sorted_wrt_rev)
      then have 1: "sorted_wrt (\<lambda>a b. \<not> sortsBefore c b a) (rev pre)"
      proof (rule sorted_wrt_mono_rel[rotated])
        fix a b assume "a \<in> set (rev pre)" "b \<in> set (rev pre)" "sortsBefore c a b"
        then show "\<not> sortsBefore c b a"
          using consistent_asym[OF assms(2), of a b] sub by auto
      qed
      have 2: "filter (sortsEqual c x) (rev pre @ rest) = filter (sortsEqual c x) xs" if "x \<in> S" for x
        using filter_rev_descending[OF assms(2) that sub desc] id
        by (metis filter_append)
      show ?thesis using True rr 1 2 by simp
    qed
  qed
qed

lemma mset_ArrayTimSort: "mset (ArrayTimSort c xs) = mset xs"
proof -
  obtain front rest where cr: "CountAndMakeRun c xs = (front, rest)"
    by (cases "CountAndMakeRun c xs")
  have "mset front + mset rest = mset xs" using cr by (rule CountAndMakeRun_mset)
  then show ?thesis by (simp add: ArrayTimSort_def cr mset_BinaryInsertionSort)
qed


lemma ArrayTimSort_stable_sort:
  assumes con: "consistent c (set xs)"
  shows "sorted_wrt (\<lambda>a b. \<not> sortsBefore c b a) (ArrayTimSort c xs)"
    and "\<forall>x\<in>set xs. filter (sortsEqual c x) (ArrayTimSort c xs) = filter (sortsEqual c x) xs"
proof -
  obtain front rest where cr: "CountAndMakeRun c xs = (front, rest)"
    by (cases "CountAndMakeRun c xs")
  have ms: "mset front + mset rest = mset xs" using cr by (rule CountAndMakeRun_mset)
  have a: "ArrayTimSort c xs = BinaryInsertionSort c front rest"
    by (simp add: ArrayTimSort_def cr)
  have sub: "set front \<subseteq> set xs" "set rest \<subseteq> set xs"
    using ms by (metis mset_subset_eq_add_left mset_subset_eq_add_right set_mset_mono set_mset_mset)+
  have s: "sorted_wrt (\<lambda>a b. \<not> sortsBefore c b a) front"
    and f: "\<forall>x\<in>set xs. filter (sortsEqual c x) (front @ rest) = filter (sortsEqual c x) xs"
    using CountAndMakeRun_sorted[OF cr con] by simp_all
  show "sorted_wrt (\<lambda>a b. \<not> sortsBefore c b a) (ArrayTimSort c xs)"
    unfolding a using BinaryInsertionSort_sorted[OF con sub s] .
  show "\<forall>x\<in>set xs. filter (sortsEqual c x) (ArrayTimSort c xs) = filter (sortsEqual c x) xs"
  proof
    fix x assume x: "x \<in> set xs"
    show "filter (sortsEqual c x) (ArrayTimSort c xs) = filter (sortsEqual c x) xs"
      unfolding a using BinaryInsertionSort_stable[OF con x sub s] f x by simp
  qed
qed

lemma Array_sort_ArrayTimSort: "Array_sort ArrayTimSort c xs = ArrayTimSort c xs"
  by (simp add: Array_sort_def)

lemma ArrayTimSort_short: "ArrayTimSort c [] = []" "ArrayTimSort c [x] = [x]"
  by (simp_all add: ArrayTimSort_def CountAndMakeRun_def BinaryInsertionSort_def)


lemma stable_sort_unique:
  assumes con: "consistent c S"
  shows "set ys \<subseteq> S \<Longrightarrow> mset ys = mset zs
    \<Longrightarrow> sorted_wrt (\<lambda>a b. \<not> sortsBefore c b a) ys
    \<Longrightarrow> sorted_wrt (\<lambda>a b. \<not> sortsBefore c b a) zs
    \<Longrightarrow> \<forall>x\<in>S. filter (sortsEqual c x) ys = filter (sortsEqual c x) zs
    \<Longrightarrow> ys = zs"
proof (induction ys arbitrary: zs)
  case Nil
  then show ?case by simp
next
  case (Cons y ys)
  obtain z zs' where zs: "zs = z # zs'"
    using Cons.prems(2) by (cases zs) auto
  have st: "set zs = set (y # ys)" using Cons.prems(2) by (metis set_mset_mset)
  have yS: "y \<in> S" and zS: "z \<in> S" using Cons.prems(1) st zs by auto
  have "\<not> sortsBefore c z y"
  proof (cases "z = y")
    case True
    then show ?thesis using consistent_irrefl[OF con yS] by simp
  next
    case False
    then have "z \<in> set ys" using st zs by auto
    then show ?thesis using Cons.prems(3) by simp
  qed
  moreover have "\<not> sortsBefore c y z"
  proof (cases "y = z")
    case True
    then show ?thesis using consistent_irrefl[OF con yS] by simp
  next
    case False
    then have "y \<in> set zs'" using st zs by auto
    then show ?thesis using Cons.prems(4) zs by simp
  qed
  ultimately have e: "sortsEqual c y z" using sortsEqual_iff[OF con yS zS] by simp
  have r: "sortsEqual c y y" using consistent_refl[OF con yS] .
  have "filter (sortsEqual c y) (y # ys) = filter (sortsEqual c y) (z # zs')"
    using Cons.prems(5) yS zs by simp
  then have yz: "y = z" using e r by simp
  have f: "\<forall>x\<in>S. filter (sortsEqual c x) ys = filter (sortsEqual c x) zs'"
  proof
    fix x assume "x \<in> S"
    then have "filter (sortsEqual c x) (y # ys) = filter (sortsEqual c x) (y # zs')"
      using Cons.prems(5) zs yz by simp
    then show "filter (sortsEqual c x) ys = filter (sortsEqual c x) zs'"
      by (cases "sortsEqual c x y") simp_all
  qed
  have "ys = zs'"
    using Cons.prems zs yz f by (intro Cons.IH) simp_all
  then show ?case using zs yz by simp
qed

lemma rnd_minus_2: "rnd (- 2) = Fin (- 2)"
  using rnd_int[of "- 2"] by simp

text \<open>Whatever the engine, with a consistent \<^verbatim>\<open>comparefn\<close> a sorted permutation that keeps
  equal elements in order is the array that \<open>ArrayTimSort\<close> computes.\<close>

lemma Array_sort_unique:
  assumes "consistent c (set xs)" and "mset ys = mset xs"
    and "sorted_wrt (\<lambda>a b. \<not> sortsBefore c b a) ys"
    and "\<forall>x\<in>set xs. filter (sortsEqual c x) ys = filter (sortsEqual c x) xs"
  shows "ys = Array_sort engine c xs"
proof -
  have s: "set ys \<subseteq> set xs" using assms(2) by (metis set_mset_mset subset_refl)
  have "ys = ArrayTimSort c xs"
    using assms(1) s
  proof (rule stable_sort_unique)
    show "mset ys = mset (ArrayTimSort c xs)" using assms(2) by (simp add: mset_ArrayTimSort)
    show "sorted_wrt (\<lambda>a b. \<not> sortsBefore c b a) ys" by (rule assms(3))
    show "sorted_wrt (\<lambda>a b. \<not> sortsBefore c b a) (ArrayTimSort c xs)"
      using assms(1) by (rule ArrayTimSort_stable_sort(1))
    show "\<forall>x\<in>set xs. filter (sortsEqual c x) ys = filter (sortsEqual c x) (ArrayTimSort c xs)"
      using assms(4) ArrayTimSort_stable_sort(2)[OF assms(1)] by simp
  qed
  then show ?thesis using assms(1) by (simp add: Array_sort_def)
qed

text \<open>With an inconsistent \<^verbatim>\<open>comparefn\<close>: the numbers 1, 2, \<open>NaN\<close> and 3 under
  \<^verbatim>\<open>(a, b) => b - a\<close>. The run 1, 2 is reversed, \<open>NaN\<close> stays behind it, and the binary
  search puts 3 in front.\<close>

lemma ArrayTimSort_inconsistent:
  "ArrayTimSort (\<lambda>a b. fsub b a) [Fin 1, Fin 2, NaN, Fin 3] = [Fin 3, Fin 2, Fin 1, NaN]"
proof -
  have r: "rnd (- 1) = Fin (- 1)" using rnd_int[of "- 1"] by simp
  show ?thesis
    by (simp add: ArrayTimSort_def CountAndMakeRun_def BinaryInsertionSort_def insertPivot_def
        binarySearch.simps Let_def fsub_def r rnd_minus_2)
qed

section \<open>Facts about the ranking\<close>

lemma flt_trans: "flt a b \<Longrightarrow> flt b c \<Longrightarrow> flt a c"
  by (cases a; cases b; cases c) simp_all

lemma flt_irrefl: "\<not> flt a a"
  by (cases a) simp_all

lemma flt_asym: "flt a b \<Longrightarrow> \<not> flt b a"
  by (cases a; cases b) simp_all

lemma flt_total: "not_NaN a \<Longrightarrow> not_NaN b \<Longrightarrow> flt a b \<or> a = b \<or> flt b a"
  by (cases a; cases b) auto

lemma fseq_iff: "not_NaN a \<Longrightarrow> not_NaN b \<Longrightarrow> fseq a b \<longleftrightarrow> a = b"
  by (cases a; cases b) simp_all

lemma flt_not_NaN: "flt a b \<Longrightarrow> not_NaN a \<and> not_NaN b"
  by (cases a; cases b) simp_all

lemma fseq_eq: "fseq a b \<Longrightarrow> a = b \<and> not_NaN a"
  by (cases a; cases b) simp_all














text \<open>Without a \<open>NaN\<close> among the \<open>sharesSellable\<close>, and without one among the ratios of
  routes that sell the same number of shares, the two figures rank the routes.\<close>

lemma ranked_if_numbers:
  assumes "\<forall>r\<in>set rs. not_NaN (sharesSellable (sellCoin r))"
    and "\<forall>r1\<in>set rs. \<forall>r2\<in>set rs. r1 \<noteq> r2
           \<and> sharesSellable (sellCoin r1) = sharesSellable (sellCoin r2) \<longrightarrow> not_NaN (ratio r1)"
  shows "ranked rs"
  unfolding ranked_def
proof (intro ballI impI)
  fix a b c assume m: "a \<in> set rs" "b \<in> set rs" "c \<in> set rs"
    and h: "\<not> ranksBefore a b \<and> \<not> ranksBefore b c"
  let ?s = "\<lambda>r. sharesSellable (sellCoin r)"
  have n: "not_NaN (?s a)" "not_NaN (?s b)" "not_NaN (?s c)" using assms(1) m by simp_all
  have ab: "\<not> flt (?s b) (?s a)" and bc: "\<not> flt (?s c) (?s b)"
    using h by (simp_all add: ranksBefore_def)
  show "\<not> ranksBefore a c"
  proof
    assume ac: "ranksBefore a c"
    have nca: "\<not> flt (?s c) (?s a)"
      using ab bc flt_total[OF n(1) n(2)] flt_total[OF n(2) n(3)] flt_trans by metis
    then have eq: "?s a = ?s c" and r: "flt (ratio c) (ratio a)"
      using ac fseq_eq by (auto simp: ranksBefore_def)
    have eb: "?s a = ?s b"
      using ab bc eq flt_total[OF n(1) n(2)] by metis
    have ne: "a \<noteq> c" using r flt_irrefl by auto
    have rab: "\<not> flt (ratio b) (ratio a)" and rbc: "\<not> flt (ratio c) (ratio b)"
      using h eb eq n by (simp_all add: ranksBefore_def fseq_iff)
    have nb: "not_NaN (ratio b)"
    proof (cases "b = a")
      case True
      then show ?thesis using r flt_not_NaN by blast
    next
      case False
      then have "b \<noteq> a \<and> sharesSellable (sellCoin b) = sharesSellable (sellCoin a)"
        using eb by simp
      then show ?thesis using assms(2) m(1,2) by blast
    qed
    have "not_NaN (ratio a)" "not_NaN (ratio c)" using r flt_not_NaN by blast+
    then show False
      using rab rbc r nb flt_total[of "ratio a" "ratio b"] flt_total[of "ratio b" "ratio c"]
        flt_trans flt_irrefl by metis
  qed
qed

lemma sortedRoutes_Nil: "sortedRoutes engine [] = []"
  by (simp add: sortedRoutes_def Array_sort_def consistent_def ArrayTimSort_short)

lemma sortedRoutes_ArrayTimSort: "sortedRoutes ArrayTimSort rs = ArrayTimSort compareRoutes rs"
  by (simp add: sortedRoutes_def Array_sort_ArrayTimSort)

section \<open>Facts about the route evaluation\<close>

lemma andThen_Inr_iff: "andThen m f = Inr y \<longleftrightarrow> (\<exists>x. m = Inr x \<and> f x = Inr y)"
  by (cases m) (simp_all add: andThen_def)

lemma andThen_Inl_iff: "andThen m f = Inl e \<longleftrightarrow> m = Inl e \<or> (\<exists>x. m = Inr x \<and> f x = Inl e)"
  by (cases m) (simp_all add: andThen_def)


lemma Promise_map_Inr:
  "Promise_map f xs = Inr ys \<Longrightarrow> list_all2 (\<lambda>x y. f x = Inr y) xs ys"
proof (induction xs arbitrary: ys)
  case Nil
  then show ?case by simp
next
  case (Cons x xs)
  then show ?case by (auto simp: andThen_Inr_iff)
qed

lemma Promise_map_Inl:
  assumes "x \<in> set xs" and "isl (f x)"
  shows "isl (Promise_map f xs)"
  using assms
proof (induction xs)
  case Nil
  then show ?case by simp
next
  case (Cons y ys)
  then show ?case by (cases "f y"; cases "Promise_map f ys") (auto simp: andThen_def)
qed

lemma Promise_map_all_Inl:
  assumes "xs \<noteq> []" and "\<forall>x\<in>set xs. isl (f x)"
  shows "\<exists>e. Promise_map f xs = Inl e \<and> f (hd xs) = Inl e"
  using assms by (cases xs; cases "f (hd xs)") (auto simp: andThen_def)

lemma candidateRoute_fetch_fails:
  assumes "isl (getOrdersBinance ex (sellCoinName @ b)) \<or> isl (getOrdersBinance ex (buyCoinName @ b))"
  shows "\<exists>e. candidateRoute ex sellCoinName buyCoinName sharesEntered b = Inl e \<and>
           (getOrdersBinance ex (sellCoinName @ b) = Inl e
            \<or> getOrdersBinance ex (buyCoinName @ b) = Inl e)"
  using assms
  by (cases "getOrdersBinance ex (sellCoinName @ b)"; cases "getOrdersBinance ex (buyCoinName @ b)")
     (auto simp: candidateRoute_def andThen_def Let_def)


lemma example_possibleRoutes:
  "possibleRoutes exampleExchange ''XRP'' ''ADA'' [''BTC'', ''USDT''] (Fin 4) = Inr exampleCandidates"
  by (simp add: possibleRoutes_def candidateRoute_def exampleExchange_def andThen_def
      exampleCandidates_def rnd_values Let_def del: fmul.simps)






section \<open>Facts about the settlement and the savings\<close>

lemma andThenE:
  assumes "andThen m f = Inr y"
  obtains x where "m = Inr x" and "f x = Inr y"
  using assms by (cases m) (simp_all add: andThen_def)

lemma firstFill_Inr_iff: "firstFill fs = Inr f \<longleftrightarrow> (\<exists>rest. fs = f # rest)"
  by (cases fs) (auto simp: firstFill_def)

lemma settleSale_Inr:
  assumes "settleSale ex sellRes = Inr s"
  shows "\<exists>sellFill sellRest sellPrice sellQuantity sellCommission.
           fills sellRes = sellFill # sellRest
         \<and> aggregateFilledTradesBinance ex (fills sellRes)
              = Inr (sellPrice, sellQuantity, sellCommission)
         \<and> price s = sellPrice \<and> quantity s = sellQuantity \<and> commission s = sellCommission
         \<and> commissionAsset s = fillCommissionAsset sellFill
         \<and> total s = fsub (fmul sellQuantity sellPrice)
                          (fmul (fmul sellQuantity sellPrice)
                                (if commissionAsset s = ''BNB''
                                 then rnd (5 / 100000) else rnd (1 / 10000)))"
proof -
  from assms obtain a where a: "aggregateFilledTradesBinance ex (fills sellRes) = Inr a"
    and 1: "(case a of (sellPrice, sellQuantity, sellCommission) \<Rightarrow>
               andThen (firstFill (fills sellRes)) (\<lambda>sellFill.
               let sellCommissionDecimal = commissionDecimal (fillCommissionAsset sellFill);
                   sellAmount = fmul sellQuantity sellPrice;
                   sellTotal = fsub sellAmount (fmul sellAmount sellCommissionDecimal)
               in Inr \<lparr>legMarket = symbol sellRes, price = sellPrice, quantity = sellQuantity,
                       commission = sellCommission,
                       commissionAsset = fillCommissionAsset sellFill,
                       total = sellTotal, tradeId = fillTradeId sellFill\<rparr>)) = Inr s"
    unfolding settleSale_def by (rule andThenE)
  obtain sellPrice sellQuantity sellCommission where t: "a = (sellPrice, sellQuantity, sellCommission)"
    by (cases a)
  from 1 obtain sellFill where f: "firstFill (fills sellRes) = Inr sellFill"
    and 2: "s = \<lparr>legMarket = symbol sellRes, price = sellPrice, quantity = sellQuantity,
                 commission = sellCommission,
                 commissionAsset = fillCommissionAsset sellFill,
                 total = fsub (fmul sellQuantity sellPrice)
                           (fmul (fmul sellQuantity sellPrice)
                              (commissionDecimal (fillCommissionAsset sellFill))),
                 tradeId = fillTradeId sellFill\<rparr>"
    unfolding t by (auto simp: Let_def elim!: andThenE simp del: fmul.simps)
  obtain sellRest where r: "fills sellRes = sellFill # sellRest"
    using f by (auto simp: firstFill_Inr_iff)
  show ?thesis
    using a r unfolding t 2 by (simp add: commissionDecimal_def del: fmul.simps)
qed

lemma settlePurchase_Inr:
  assumes "settlePurchase ex buyRes = Inr s"
  shows "\<exists>buyFill buyRest buyPrice buyQuantity buyCommission.
           fills buyRes = buyFill # buyRest
         \<and> aggregateFilledTradesBinance ex (fills buyRes)
              = Inr (buyPrice, buyQuantity, buyCommission)
         \<and> price s = buyPrice \<and> quantity s = buyQuantity \<and> commission s = buyCommission
         \<and> commissionAsset s = fillCommissionAsset buyFill
         \<and> total s = fadd (fmul buyQuantity buyPrice)
                          (fmul (fmul buyQuantity buyPrice)
                                (if commissionAsset s = ''BNB''
                                 then rnd (5 / 100000) else rnd (1 / 10000)))"
proof -
  from assms obtain a where a: "aggregateFilledTradesBinance ex (fills buyRes) = Inr a"
    and 1: "(case a of (buyPrice, buyQuantity, buyCommission) \<Rightarrow>
               andThen (firstFill (fills buyRes)) (\<lambda>buyFill.
               let buyCommissionDecimal = commissionDecimal (fillCommissionAsset buyFill);
                   buyAmount = fmul buyQuantity buyPrice;
                   buyTotal = fadd buyAmount (fmul buyAmount buyCommissionDecimal)
               in Inr \<lparr>legMarket = symbol buyRes, price = buyPrice, quantity = buyQuantity,
                       commission = buyCommission,
                       commissionAsset = fillCommissionAsset buyFill,
                       total = buyTotal, tradeId = fillTradeId buyFill\<rparr>)) = Inr s"
    unfolding settlePurchase_def by (rule andThenE)
  obtain buyPrice buyQuantity buyCommission where t: "a = (buyPrice, buyQuantity, buyCommission)"
    by (cases a)
  from 1 obtain buyFill where f: "firstFill (fills buyRes) = Inr buyFill"
    and 2: "s = \<lparr>legMarket = symbol buyRes, price = buyPrice, quantity = buyQuantity,
                 commission = buyCommission,
                 commissionAsset = fillCommissionAsset buyFill,
                 total = fadd (fmul buyQuantity buyPrice)
                           (fmul (fmul buyQuantity buyPrice)
                              (commissionDecimal (fillCommissionAsset buyFill))),
                 tradeId = fillTradeId buyFill\<rparr>"
    unfolding t by (auto simp: Let_def elim!: andThenE simp del: fmul.simps)
  obtain buyRest where r: "fills buyRes = buyFill # buyRest"
    using f by (auto simp: firstFill_Inr_iff)
  show ?thesis
    using a r unfolding t 2 by (simp add: commissionDecimal_def del: fmul.simps)
qed

lemma trade_Inr:
  assumes "trade engine ex req = Inr t"
  shows "\<exists>sellCoinSymbol buyCoinSymbol quantityToBuy sellRes buyRes.
           sellMarketBinance ex sellCoinSymbol (reqShares req) = Inr sellRes
         \<and> buyMarketBinance ex buyCoinSymbol quantityToBuy = Inr buyRes
         \<and> settleSale ex sellRes = Inr (sale t)
         \<and> settlePurchase ex buyRes = Inr (purchase t)"
proof -
  from assms obtain p where "tradeRoute engine ex req = Inr p"
    and 1: "(case p of (sellCoinSymbol, buyCoinSymbol, sharesBuyable', bestRoute) \<Rightarrow>
     andThen (getMinStepsBinance ex sellCoinSymbol buyCoinSymbol) (\<lambda>(sellStep, buyCoinMinStep).
     andThen (sellMarketBinance ex sellCoinSymbol (reqShares req)) (\<lambda>sellRes.
     andThen (settleSale ex sellRes) (\<lambda>sale'.
     let unBuyableShares = fmod sharesBuyable' (toNumber buyCoinMinStep);
         actualSharesBuyable = fsub sharesBuyable' unBuyableShares;
         quantityToBuy = actualSharesBuyable
     in
     andThen (buyMarketBinance ex buyCoinSymbol quantityToBuy) (\<lambda>buyRes.
     andThen (settlePurchase ex buyRes) (\<lambda>purchase'.
     andThen (tradeSavings ex bestRoute (quantity purchase')) (\<lambda>savings'.
     Inr \<lparr>sale = sale', purchase = purchase', savings = savings'\<rparr>))))))) = Inr t"
    unfolding trade_def by (rule andThenE)
  obtain sellCoinSymbol buyCoinSymbol sharesBuyable' bestRoute
    where p: "p = (sellCoinSymbol, buyCoinSymbol, sharesBuyable', bestRoute)" by (cases p)
  from 1 obtain st where "getMinStepsBinance ex sellCoinSymbol buyCoinSymbol = Inr st"
    and 2: "(case st of (sellStep, buyCoinMinStep) \<Rightarrow>
     andThen (sellMarketBinance ex sellCoinSymbol (reqShares req)) (\<lambda>sellRes.
     andThen (settleSale ex sellRes) (\<lambda>sale'.
     let unBuyableShares = fmod sharesBuyable' (toNumber buyCoinMinStep);
         actualSharesBuyable = fsub sharesBuyable' unBuyableShares;
         quantityToBuy = actualSharesBuyable
     in
     andThen (buyMarketBinance ex buyCoinSymbol quantityToBuy) (\<lambda>buyRes.
     andThen (settlePurchase ex buyRes) (\<lambda>purchase'.
     andThen (tradeSavings ex bestRoute (quantity purchase')) (\<lambda>savings'.
     Inr \<lparr>sale = sale', purchase = purchase', savings = savings'\<rparr>)))))) = Inr t"
    unfolding p prod.case by (rule andThenE)
  obtain sellStep buyCoinMinStep where st: "st = (sellStep, buyCoinMinStep)" by (cases st)
  define quantityToBuy where
    "quantityToBuy = fsub sharesBuyable' (fmod sharesBuyable' (toNumber buyCoinMinStep))"
  from 2 obtain sellRes where sr: "sellMarketBinance ex sellCoinSymbol (reqShares req) = Inr sellRes"
    and 3: "andThen (settleSale ex sellRes) (\<lambda>sale'.
     andThen (buyMarketBinance ex buyCoinSymbol quantityToBuy) (\<lambda>buyRes.
     andThen (settlePurchase ex buyRes) (\<lambda>purchase'.
     andThen (tradeSavings ex bestRoute (quantity purchase')) (\<lambda>savings'.
     Inr \<lparr>sale = sale', purchase = purchase', savings = savings'\<rparr>)))) = Inr t"
    unfolding st prod.case Let_def quantityToBuy_def by (rule andThenE)
  from 3 obtain sale' where sa: "settleSale ex sellRes = Inr sale'"
    and 4: "andThen (buyMarketBinance ex buyCoinSymbol quantityToBuy) (\<lambda>buyRes.
     andThen (settlePurchase ex buyRes) (\<lambda>purchase'.
     andThen (tradeSavings ex bestRoute (quantity purchase')) (\<lambda>savings'.
     Inr \<lparr>sale = sale', purchase = purchase', savings = savings'\<rparr>))) = Inr t"
    by (rule andThenE)
  from 4 obtain buyRes where br: "buyMarketBinance ex buyCoinSymbol quantityToBuy = Inr buyRes"
    and 5: "andThen (settlePurchase ex buyRes) (\<lambda>purchase'.
     andThen (tradeSavings ex bestRoute (quantity purchase')) (\<lambda>savings'.
     Inr \<lparr>sale = sale', purchase = purchase', savings = savings'\<rparr>)) = Inr t"
    by (rule andThenE)
  from 5 obtain purchase' where pu: "settlePurchase ex buyRes = Inr purchase'"
    and 6: "andThen (tradeSavings ex bestRoute (quantity purchase')) (\<lambda>savings'.
     Inr \<lparr>sale = sale', purchase = purchase', savings = savings'\<rparr>) = Inr t"
    by (rule andThenE)
  from 6 obtain savings' where "t = \<lparr>sale = sale', purchase = purchase', savings = savings'\<rparr>"
    by (auto elim!: andThenE)
  then have "sale t = sale'" "purchase t = purchase'" by simp_all
  then show ?thesis using sr br sa pu by blast
qed

lemma example_quantityToBuy: "fsub (Fin 8) (fmod (Fin 8) (Fin 1)) = Fin 8"
  using rnd_int[of 8] by (simp add: fsub_def trunc_def)








section \<open>Facts about the live session\<close>

lemma onBuyCoinOrders_state: "fst (onBuyCoinOrders ex bc s ob) = s"
  by (simp add: onBuyCoinOrders_def split: sum.splits prod.splits)

lemma onSellCoinOrders_caches:
  assumes "calculateSellData ex (bids ob) (SHARES_FOR_ORDER_UPDATES s) = Inr (ss, avg, saleTotal)"
  shows "fst (onSellCoinOrders ex sellCoinSymbol s ob) = s\<lparr>saleProceeds := saleTotal\<rparr>"
  using assms by (simp add: onSellCoinOrders_def)

lemma handle_not_sell:
  assumes "\<not> isSellUpdate e"
  shows "saleProceeds (fst (handle ex sellCoinSymbol bc s e)) = saleProceeds s"
  using assms by (cases e) (simp_all add: onBuyCoinOrders_state sharesUpdated_def)

lemma run_Cons_fst:
  "fst (run ex sellCoinSymbol bc s (e # es))
     = fst (run ex sellCoinSymbol bc (fst (handle ex sellCoinSymbol bc s e)) es)"
  by (simp add: Let_def case_prod_beta)

lemma run_fst_snoc:
  "fst (run ex sellCoinSymbol bc s (es @ es'))
     = fst (run ex sellCoinSymbol bc (fst (run ex sellCoinSymbol bc s es)) es')"
proof (induction es arbitrary: s)
  case Nil
  then show ?case by simp
next
  case (Cons e es)
  show ?case unfolding append_Cons run_Cons_fst by (rule Cons.IH)
qed

lemma run_not_sell:
  assumes "\<forall>e\<in>set es. \<not> isSellUpdate e"
  shows "saleProceeds (fst (run ex sellCoinSymbol bc s es)) = saleProceeds s"
  using assms
proof (induction es arbitrary: s)
  case Nil
  then show ?case by simp
next
  case (Cons e es)
  have "saleProceeds (fst (run ex sellCoinSymbol bc (fst (handle ex sellCoinSymbol bc s e)) es))
        = saleProceeds (fst (handle ex sellCoinSymbol bc s e))"
    using Cons by simp
  also have "\<dots> = saleProceeds s"
    using handle_not_sell[of e ex sellCoinSymbol bc s] Cons.prems by simp
  finally show ?case unfolding run_Cons_fst .
qed

lemma onBuyCoinOrders_outcome:
  "onBuyCoinOrders ex buyCoin' s buyCoinOrders =
     (s, case calculateBuyData ex (asks buyCoinOrders) (saleProceeds s) of
           Inl e \<Rightarrow> Threw e
         | Inr (amountSpent, sharesPossibleToBuy, sharesBuyable', averageBuyPrice') \<Rightarrow>
             (case topOfBook (bids buyCoinOrders) of
                Inl e \<Rightarrow> Threw e
              | Inr bid' \<Rightarrow>
                  (case topOfBook (asks buyCoinOrders) of
                     Inl e \<Rightarrow> Threw e
                   | Inr ask' \<Rightarrow>
                       UpdateBuyCoinInfo
                         (adjustBuyCoin
                            (buyCoin'\<lparr>bid := Some bid', ask := Some ask',
                                      averageBuyPrice := averageBuyPrice',
                                      sharesBuyable := sharesBuyable',
                                      amountBuyable := amountSpent\<rparr>)))))"
  by (simp add: onBuyCoinOrders_def split: sum.splits prod.splits)

lemma handle_shares:
  "SHARES_FOR_ORDER_UPDATES (fst (handle ex sellCoinSymbol bc s e))
     = enteredQuantity (SHARES_FOR_ORDER_UPDATES s) [e]"
  by (cases e)
     (simp_all add: onSellCoinOrders_def onBuyCoinOrders_state sharesUpdated_def
        split: sum.splits prod.splits)

lemma enteredQuantity_Cons:
  "enteredQuantity q (e # es) = enteredQuantity (enteredQuantity q [e]) es"
  by (cases e) simp_all

lemma enteredQuantity_append:
  "enteredQuantity q (es @ es') = enteredQuantity (enteredQuantity q es) es'"
proof (induction es arbitrary: q)
  case Nil
  then show ?case by simp
next
  case (Cons e es)
  show ?case
    unfolding append_Cons enteredQuantity_Cons[of q e "es @ es'"] enteredQuantity_Cons[of q e es]
    by (rule Cons.IH)
qed

lemma run_shares:
  "SHARES_FOR_ORDER_UPDATES (fst (run ex sellCoinSymbol bc s es))
     = enteredQuantity (SHARES_FOR_ORDER_UPDATES s) es"
proof (induction es arbitrary: s)
  case Nil
  then show ?case by simp
next
  case (Cons e es)
  show ?case
    unfolding run_Cons_fst Cons.IH handle_shares enteredQuantity_Cons[of _ e es] ..
qed

lemma run_caches:
  assumes "calculateSellData ex (bids sellCoinOrders)
             (enteredQuantity (SHARES_FOR_ORDER_UPDATES s) es1)
           = Inr (sharesSellable', averageSellPrice', saleTotal)"
    and "\<forall>e\<in>set es2. \<not> isSellUpdate e"
  shows "saleProceeds (fst (run ex sellCoinSymbol bc s (es1 @ SellCoinOrders sellCoinOrders # es2)))
         = saleTotal"
proof -
  let ?s1 = "fst (run ex sellCoinSymbol bc s es1)"
  let ?s2 = "fst (onSellCoinOrders ex sellCoinSymbol ?s1 sellCoinOrders)"
  have split: "fst (run ex sellCoinSymbol bc s (es1 @ SellCoinOrders sellCoinOrders # es2))
        = fst (run ex sellCoinSymbol bc ?s2 es2)"
    unfolding run_fst_snoc run_Cons_fst by simp
  have "calculateSellData ex (bids sellCoinOrders) (SHARES_FOR_ORDER_UPDATES ?s1)
        = Inr (sharesSellable', averageSellPrice', saleTotal)"
    using assms(1) by (simp add: run_shares)
  then have "saleProceeds ?s2 = saleTotal" using onSellCoinOrders_caches by simp
  then show ?thesis unfolding split using run_not_sell[OF assms(2)] by simp
qed

lemma rnd_16: "rnd 16 = Fin 16"
  using rnd_int[of 16] by simp

section \<open>Properties of the lot adjustment\<close>

text \<open>
  C3. With \<open>minStep\<close> zero the adjustment is not a pass-through: \<^verbatim>\<open>sharesBuyable % 0\<close> is
  \<open>NaN\<close>, and so are the three adjusted figures. At \<open>amountBuyable = 3\<close>,
  \<open>averageBuyPrice = 2\<close>, \<open>minStep = 0\<close> the adjusted \<open>sharesBuyable\<close>, \<open>amountBuyable\<close> and
  \<open>leftOver\<close> are all \<open>NaN\<close>, where a pass-through would give \<open>1.5\<close>, \<open>3\<close> and \<open>0\<close>.
\<close>

theorem adjustBuyCoin_minStep_zero:
  "adjustBuyCoin \<lparr>market = ''ETHBTC'', minStep = Some (Fin 0), bid = None, ask = None,
       amountBuyable = Fin 3, sharesBuyable = Fin (3 / 2), averageBuyPrice = Fin 2,
       leftOver = None\<rparr>
   = \<lparr>market = ''ETHBTC'', minStep = Some (Fin 0), bid = None, ask = None,
       amountBuyable = NaN, sharesBuyable = NaN, averageBuyPrice = Fin 2,
       leftOver = Some NaN\<rparr>"
  by (simp add: adjustBuyCoin_def toNumber_def Let_def fmod_zero_divisor fsub_NaN_right
        del: fdiv.simps)

text \<open>
  C9. The adjustment never reads the \<open>sharesBuyable\<close> of its input: two inputs that agree on
  \<open>amountBuyable\<close>, \<open>averageBuyPrice\<close> and \<open>minStep\<close> give the same adjusted \<open>sharesBuyable\<close>,
  \<open>amountBuyable\<close> and \<open>leftOver\<close>, whatever their \<open>sharesBuyable\<close> fields are; the adjusted
  \<open>sharesBuyable\<close> is computed from the quotient \<open>amountBuyable / averageBuyPrice\<close>.
\<close>

theorem adjustBuyCoin_ignores_sharesBuyable:
  assumes "amountBuyable b1 = amountBuyable b2"
    and "averageBuyPrice b1 = averageBuyPrice b2"
    and "minStep b1 = minStep b2"
  shows "sharesBuyable (adjustBuyCoin b1) = sharesBuyable (adjustBuyCoin b2)
       \<and> amountBuyable (adjustBuyCoin b1) = amountBuyable (adjustBuyCoin b2)
       \<and> leftOver (adjustBuyCoin b1) = leftOver (adjustBuyCoin b2)
       \<and> sharesBuyable (adjustBuyCoin b1)
           = (let q = fdiv (amountBuyable b1) (averageBuyPrice b1)
              in fsub q (fmod q (toNumber (minStep b1))))"
  using assms by (simp add: adjustBuyCoin_def Let_def)

theorem adjustBuyCoin_ignores_sharesBuyable_witness:
  "sharesBuyable (adjustBuyCoin \<lparr>market = ''ETHBTC'', minStep = Some (Fin 1), bid = None,
         ask = None, amountBuyable = Fin 3, sharesBuyable = Fin 7, averageBuyPrice = Fin 2,
         leftOver = None\<rparr>)
     = sharesBuyable (adjustBuyCoin \<lparr>market = ''ETHBTC'', minStep = Some (Fin 1), bid = None,
         ask = None, amountBuyable = Fin 3, sharesBuyable = NaN, averageBuyPrice = Fin 2,
         leftOver = None\<rparr>)
   \<and> amountBuyable (adjustBuyCoin \<lparr>market = ''ETHBTC'', minStep = Some (Fin 1), bid = None,
         ask = None, amountBuyable = Fin 3, sharesBuyable = Fin 7, averageBuyPrice = Fin 2,
         leftOver = None\<rparr>)
     = amountBuyable (adjustBuyCoin \<lparr>market = ''ETHBTC'', minStep = Some (Fin 1), bid = None,
         ask = None, amountBuyable = Fin 3, sharesBuyable = NaN, averageBuyPrice = Fin 2,
         leftOver = None\<rparr>)
   \<and> leftOver (adjustBuyCoin \<lparr>market = ''ETHBTC'', minStep = Some (Fin 1), bid = None,
         ask = None, amountBuyable = Fin 3, sharesBuyable = Fin 7, averageBuyPrice = Fin 2,
         leftOver = None\<rparr>)
     = leftOver (adjustBuyCoin \<lparr>market = ''ETHBTC'', minStep = Some (Fin 1), bid = None,
         ask = None, amountBuyable = Fin 3, sharesBuyable = NaN, averageBuyPrice = Fin 2,
         leftOver = None\<rparr>)"
  using adjustBuyCoin_ignores_sharesBuyable
    [of "\<lparr>market = ''ETHBTC'', minStep = Some (Fin 1), bid = None, ask = None,
           amountBuyable = Fin 3, sharesBuyable = Fin 7, averageBuyPrice = Fin 2,
           leftOver = None\<rparr>"
        "\<lparr>market = ''ETHBTC'', minStep = Some (Fin 1), bid = None, ask = None,
           amountBuyable = Fin 3, sharesBuyable = NaN, averageBuyPrice = Fin 2,
           leftOver = None\<rparr>"]
  by simp

text \<open>
  C4. A positive \<open>minStep\<close> alone does not give the three guarantees: with an average price
  of zero the buyable quantity is infinite, its remainder \<open>NaN\<close>, and so is every adjusted
  figure; the same holds for an average price that is \<open>NaN\<close>.
\<close>

theorem adjustBuyCoin_positive_step_counterexample:
  "flt (Fin 0) (Fin 1)
   \<and> \<not> fle (sharesBuyable (adjustBuyCoin (exampleLot\<lparr>averageBuyPrice := Fin 0\<rparr>)))
            (fdiv (Fin 3) (Fin 0))
   \<and> \<not> fseq (fadd (toNumber (leftOver (adjustBuyCoin (exampleLot\<lparr>averageBuyPrice := Fin 0\<rparr>))))
                  (amountBuyable (adjustBuyCoin (exampleLot\<lparr>averageBuyPrice := Fin 0\<rparr>))))
            (Fin 3)
   \<and> sharesBuyable (adjustBuyCoin (exampleLot\<lparr>averageBuyPrice := Fin 0\<rparr>)) = NaN
   \<and> sharesBuyable (adjustBuyCoin (exampleLot\<lparr>amountBuyable := Fin 0, averageBuyPrice := NaN\<rparr>))
       = NaN"
  by (simp add: adjustBuyCoin_def exampleLot_def Let_def toNumber_def fsub_def fle_def)

text \<open>
  C4, as the code has it. Let the amount be a finite binary64 value, not negative and
  below \<open>2\<^sup>1\<^sup>0\<^sup>2\<^sup>3\<close>, the average price and the step finite and positive, and the buyable
  quantity \<open>q\<close>, the rounded quotient of amount and price, finite. Then the adjusted quantity
  is not negative and not above \<open>q\<close>; it is the binary64 value nearest to the multiple
  \<open>\<lfloor>q / S\<rfloor> times S\<close> of the step; and \<open>leftOver\<close> plus the adjusted amount is the original amount,
  exactly, in binary64 arithmetic.
\<close>

theorem adjustBuyCoin_decomposition:
  assumes "amountBuyable b = Fin a" and "averageBuyPrice b = Fin p" and "minStep b = Some (Fin s)"
    and "is_double a" and "0 \<le> a" and "a < 2 ^ 1023" and "0 < p" and "0 < s"
    and "fdiv (amountBuyable b) (averageBuyPrice b) = Fin q"
  shows "\<exists>q'. sharesBuyable (adjustBuyCoin b) = Fin q' \<and> 0 \<le> q' \<and> q' \<le> q
            \<and> Fin q' = rnd (of_int \<lfloor>q / s\<rfloor> * s)
            \<and> fadd (toNumber (leftOver (adjustBuyCoin b))) (amountBuyable (adjustBuyCoin b))
                = amountBuyable b"
proof -
  have q: "rnd (a / p) = Fin q" using assms(1,2,7,9) by simp
  have dq: "is_double q" using q by (rule rnd_idem)
  have d: "0 \<le> a / p" using assms(5,7) by simp
  have q0: "0 \<le> q" using d q by (rule rnd_nonneg)
  define u where "u = q - s * of_int \<lfloor>q / s\<rfloor>"
  have u: "fmod (Fin q) (Fin s) = Fin u" "0 \<le> u" "u \<le> q"
    using fmod_pos[OF q0 assms(8)] by (simp_all add: u_def)
  obtain q' where q': "rnd (q - u) = Fin q'" "0 \<le> q'" "q' \<le> q"
    using rnd_upper[OF dq, of "q - u"] u(2,3) by auto
  have m: "q - u = of_int \<lfloor>q / s\<rfloor> * s" by (simp add: u_def)
  have "q \<le> 2 * (a / p)" using d q by (rule rnd_le_twice)
  then have "q * p \<le> 2 * a" using assms(7) by (simp add: field_simps)
  moreover have "u * p \<le> q * p" using u(3) assms(7) by simp
  ultimately have up: "u * p \<le> 2 * a" by simp
  have "is_double (2 * a)" using assms(4,5,6) by (intro twice_double) simp_all
  then obtain t where t: "rnd (u * p) = Fin t" "0 \<le> t" "t \<le> 2 * a"
    using rnd_upper[of "2 * a" "u * p"] u(2) assms(7) up by auto
  have dt: "is_double t" using t(1) by (rule rnd_idem)
  have r: "fadd (fsub (Fin a) (fsub (Fin a) (Fin t))) (fsub (Fin a) (Fin t)) = Fin a"
    using assms(4) dt t(2,3) by (rule leftover_roundtrip)
  have sh: "sharesBuyable (adjustBuyCoin b) = fsub (Fin q) (Fin u)"
    using assms(1,2,3,9) u(1) by (simp add: adjustBuyCoin_def Let_def toNumber_def del: fdiv.simps)
  have am: "amountBuyable (adjustBuyCoin b) = fsub (Fin a) (Fin t)"
    using assms(1,2,3,9) u(1) t(1)
    by (simp add: adjustBuyCoin_def Let_def toNumber_def del: fdiv.simps)
  have lo: "toNumber (leftOver (adjustBuyCoin b)) = fsub (Fin a) (fsub (Fin a) (Fin t))"
    using assms(1,2,3,9) u(1) t(1)
    by (simp add: adjustBuyCoin_def Let_def toNumber_def del: fdiv.simps)
  have "sharesBuyable (adjustBuyCoin b) = Fin q'" unfolding sh using q'(1) by (simp add: fsub_def)
  moreover have "Fin q' = rnd (of_int \<lfloor>q / s\<rfloor> * s)" using q'(1) m by simp
  moreover have "fadd (toNumber (leftOver (adjustBuyCoin b))) (amountBuyable (adjustBuyCoin b))
                = amountBuyable b"
    unfolding lo am assms(1) by (rule r)
  ultimately show ?thesis using q'(2,3) by blast
qed

theorem adjustBuyCoin_decomposition_witness:
  "amountBuyable exampleLot = Fin 3 \<and> averageBuyPrice exampleLot = Fin 2
   \<and> minStep exampleLot = Some (Fin 1) \<and> is_double 3
   \<and> fdiv (amountBuyable exampleLot) (averageBuyPrice exampleLot) = Fin (3 / 2)
   \<and> sharesBuyable (adjustBuyCoin exampleLot) = Fin 1
   \<and> fadd (toNumber (leftOver (adjustBuyCoin exampleLot))) (amountBuyable (adjustBuyCoin exampleLot))
       = Fin 3"
proof -
  have h: "amountBuyable exampleLot = Fin 3" "averageBuyPrice exampleLot = Fin 2"
    "minStep exampleLot = Some (Fin 1)"
    by (simp_all add: exampleLot_def)
  have d: "is_double 3" using rnd_int[of 3] by (simp add: is_double_def)
  have q: "fdiv (amountBuyable exampleLot) (averageBuyPrice exampleLot) = Fin (3 / 2)"
    unfolding h by (simp add: rnd_values)
  have f: "\<lfloor>(3::rat) / 2 / 1\<rfloor> = 1" by linarith
  from adjustBuyCoin_decomposition[OF h d _ _ _ _ q]
  obtain q' where "sharesBuyable (adjustBuyCoin exampleLot) = Fin q'"
    and "Fin q' = rnd (of_int \<lfloor>(3::rat) / 2 / 1\<rfloor> * 1)"
    and r: "fadd (toNumber (leftOver (adjustBuyCoin exampleLot)))
              (amountBuyable (adjustBuyCoin exampleLot)) = amountBuyable exampleLot"
    by auto
  then have "sharesBuyable (adjustBuyCoin exampleLot) = Fin 1"
    unfolding f by (simp add: rnd_values)
  then show ?thesis using h d q r by simp
qed

section \<open>Properties of the route evaluation\<close>




text \<open>
  C2. A candidate whose order book cannot be fetched is not excluded: one failing fetch
  makes the whole evaluation fail. On the example exchange the route through BTC alone is
  evaluated, and the evaluation over BTC and ETH fails with the error of the ETH market.
\<close>

theorem getBestRoute_excludes_failed_candidate_counterexample:
  "getOrdersBinance exampleExchange (''XRP'' @ ''ETH'') = Inl (Rejected ''Invalid symbol'')
   \<and> \<not> isl (getBestRoute ArrayTimSort exampleExchange ''XRP'' ''ADA'' [''BTC''] (Fin 4))
   \<and> getBestRoute ArrayTimSort exampleExchange ''XRP'' ''ADA'' [''BTC'', ''ETH''] (Fin 4)
       = Inl (Rejected ''Invalid symbol'')"
  by (simp add: getBestRoute_def possibleRoutes_def candidateRoute_def andThen_def selectRoute_def
      addBinanceMinSteps_def exampleExchange_def sortedRoutes_ArrayTimSort ArrayTimSort_short Let_def
      del: fmul.simps fdiv.simps)

text \<open>
  C2, as the code has it. The evaluation fails as soon as the fetch of one candidate's
  order book fails. When every candidate's fetch fails, the error is that of a fetch, not
  an error of its own; with no candidate at all it is a \<^verbatim>\<open>TypeError\<close>.
\<close>

theorem getBestRoute_fetch_failure:
  "((\<exists>b\<in>set bridgeCoins. isl (getOrdersBinance ex (sellCoinName @ b))
                          \<or> isl (getOrdersBinance ex (buyCoinName @ b)))
      \<longrightarrow> isl (getBestRoute engine ex sellCoinName buyCoinName bridgeCoins sharesEntered))
   \<and> (bridgeCoins \<noteq> [] \<and>
       (\<forall>b\<in>set bridgeCoins. isl (getOrdersBinance ex (sellCoinName @ b))
                            \<or> isl (getOrdersBinance ex (buyCoinName @ b)))
      \<longrightarrow> (\<exists>e. getBestRoute engine ex sellCoinName buyCoinName bridgeCoins sharesEntered = Inl e
              \<and> (\<exists>b\<in>set bridgeCoins. getOrdersBinance ex (sellCoinName @ b) = Inl e
                                     \<or> getOrdersBinance ex (buyCoinName @ b) = Inl e)))
   \<and> (bridgeCoins = []
      \<longrightarrow> getBestRoute engine ex sellCoinName buyCoinName bridgeCoins sharesEntered = Inl TypeError)"
proof (intro conjI impI)
  let ?f = "candidateRoute ex sellCoinName buyCoinName sharesEntered"
  assume "\<exists>b\<in>set bridgeCoins. isl (getOrdersBinance ex (sellCoinName @ b))
                          \<or> isl (getOrdersBinance ex (buyCoinName @ b))"
  then obtain b where b: "b \<in> set bridgeCoins"
    and f: "isl (getOrdersBinance ex (sellCoinName @ b)) \<or> isl (getOrdersBinance ex (buyCoinName @ b))"
    by blast
  have "isl (?f b)"
    using candidateRoute_fetch_fails[OF f, where sharesEntered = sharesEntered] by auto
  then have "isl (Promise_map ?f bridgeCoins)" using b by (intro Promise_map_Inl)
  then show "isl (getBestRoute engine ex sellCoinName buyCoinName bridgeCoins sharesEntered)"
    by (cases "Promise_map ?f bridgeCoins") (simp_all add: getBestRoute_def possibleRoutes_def andThen_def)
next
  let ?f = "candidateRoute ex sellCoinName buyCoinName sharesEntered"
  assume a: "bridgeCoins \<noteq> [] \<and>
       (\<forall>b\<in>set bridgeCoins. isl (getOrdersBinance ex (sellCoinName @ b))
                            \<or> isl (getOrdersBinance ex (buyCoinName @ b)))"
  then have ne: "bridgeCoins \<noteq> []" and hd: "hd bridgeCoins \<in> set bridgeCoins" by simp_all
  have all: "\<forall>b\<in>set bridgeCoins. isl (?f b)"
    using a candidateRoute_fetch_fails[of ex sellCoinName _ buyCoinName sharesEntered] by fastforce
  obtain e where e: "Promise_map ?f bridgeCoins = Inl e" "?f (hd bridgeCoins) = Inl e"
    using Promise_map_all_Inl[OF ne all] by blast
  have "getOrdersBinance ex (sellCoinName @ hd bridgeCoins) = Inl e
        \<or> getOrdersBinance ex (buyCoinName @ hd bridgeCoins) = Inl e"
    using candidateRoute_fetch_fails[of ex sellCoinName "hd bridgeCoins" buyCoinName sharesEntered]
      a hd e(2) by auto
  then show "\<exists>e. getBestRoute engine ex sellCoinName buyCoinName bridgeCoins sharesEntered = Inl e
              \<and> (\<exists>b\<in>set bridgeCoins. getOrdersBinance ex (sellCoinName @ b) = Inl e
                                     \<or> getOrdersBinance ex (buyCoinName @ b) = Inl e)"
    using e(1) hd by (auto simp: getBestRoute_def possibleRoutes_def andThen_def)
next
  assume "bridgeCoins = []"
  then show "getBestRoute engine ex sellCoinName buyCoinName bridgeCoins sharesEntered = Inl TypeError"
    by (simp add: getBestRoute_def possibleRoutes_def andThen_def sortedRoutes_Nil
        selectRoute_def)
qed

theorem getBestRoute_fetch_failure_witness:
  "isl (getOrdersBinance exampleExchange (''XRP'' @ ''ETH''))
   \<and> isl (getBestRoute ArrayTimSort exampleExchange ''XRP'' ''ADA'' [''BTC'', ''ETH''] (Fin 4))
   \<and> getBestRoute ArrayTimSort exampleExchange ''XRP'' ''ADA'' [''ETH''] (Fin 4) = Inl (Rejected ''Invalid symbol'')
   \<and> getBestRoute ArrayTimSort exampleExchange ''XRP'' ''ADA'' [] (Fin 4) = Inl TypeError"
proof -
  have f: "isl (getOrdersBinance exampleExchange (''XRP'' @ ''ETH''))"
    by (simp add: exampleExchange_def)
  have g: "getOrdersBinance exampleExchange (''XRP'' @ ''ETH'') = Inl (Rejected ''Invalid symbol'')"
          "getOrdersBinance exampleExchange (''ADA'' @ ''ETH'') = Inl (Rejected ''Invalid symbol'')"
    by (simp_all add: exampleExchange_def)
  have 1: "isl (getBestRoute ArrayTimSort exampleExchange ''XRP'' ''ADA'' [''BTC'', ''ETH''] (Fin 4))"
    using getBestRoute_fetch_failure
      [where engine = ArrayTimSort and bridgeCoins = "[''BTC'', ''ETH'']" and ex = exampleExchange
         and sellCoinName = "''XRP''" and buyCoinName = "''ADA''" and sharesEntered = "Fin 4"] f
    by simp
  have 2: "getBestRoute ArrayTimSort exampleExchange ''XRP'' ''ADA'' [''ETH''] (Fin 4) = Inl (Rejected ''Invalid symbol'')"
    using getBestRoute_fetch_failure
      [where engine = ArrayTimSort and bridgeCoins = "[''ETH'']" and ex = exampleExchange
         and sellCoinName = "''XRP''" and buyCoinName = "''ADA''" and sharesEntered = "Fin 4"] f g
    by auto
  have 3: "getBestRoute ArrayTimSort exampleExchange ''XRP'' ''ADA'' [] (Fin 4) = Inl TypeError"
    using getBestRoute_fetch_failure
      [where engine = ArrayTimSort and bridgeCoins = "[]" and ex = exampleExchange
         and sellCoinName = "''XRP''" and buyCoinName = "''ADA''" and sharesEntered = "Fin 4"] by simp
  show ?thesis using f 1 2 3 by simp
qed

text \<open>
  C5. Each candidate comes from one chain of simulations: the sell leg for the entered
  quantity, then the buy leg for the \<open>saleTotal\<close> of that sell leg; the route's \<open>ratio\<close> is
  the quotient of the two average prices of that chain.
\<close>

theorem candidate_ratio_chained:
  assumes "possibleRoutes ex sellCoinName buyCoinName bridgeCoins sharesEntered = Inr rs"
  shows "list_all2 (\<lambda>baseCoin' r.
           \<exists>sellOrders buyOrders sharesSellable' averageSellPrice' saleTotal
              amountSpent sharesPossibleToBuy sharesBuyable' averageBuyPrice'.
             getOrdersBinance ex (sellCoinName @ baseCoin') = Inr sellOrders
           \<and> getOrdersBinance ex (buyCoinName @ baseCoin') = Inr buyOrders
           \<and> calculateSellData ex (bids sellOrders) sharesEntered
               = Inr (sharesSellable', averageSellPrice', saleTotal)
           \<and> calculateBuyData ex (asks buyOrders) saleTotal
               = Inr (amountSpent, sharesPossibleToBuy, sharesBuyable', averageBuyPrice')
           \<and> sharesSellable (sellCoin r) = sharesSellable'
           \<and> averageSellPrice (sellCoin r) = averageSellPrice'
           \<and> amountBuyable (buyCoin r) = amountSpent
           \<and> averageBuyPrice (buyCoin r) = averageBuyPrice'
           \<and> ratio r = fdiv averageSellPrice' averageBuyPrice') bridgeCoins rs"
proof -
  have "list_all2 (\<lambda>b r. candidateRoute ex sellCoinName buyCoinName sharesEntered b = Inr r)
          bridgeCoins rs"
    using assms unfolding possibleRoutes_def by (rule Promise_map_Inr)
  then show ?thesis
  proof (rule list_all2_mono)
    fix b r
    assume "candidateRoute ex sellCoinName buyCoinName sharesEntered b = Inr r"
    then show "\<exists>sellOrders buyOrders sharesSellable' averageSellPrice' saleTotal
              amountSpent sharesPossibleToBuy sharesBuyable' averageBuyPrice'.
             getOrdersBinance ex (sellCoinName @ b) = Inr sellOrders
           \<and> getOrdersBinance ex (buyCoinName @ b) = Inr buyOrders
           \<and> calculateSellData ex (bids sellOrders) sharesEntered
               = Inr (sharesSellable', averageSellPrice', saleTotal)
           \<and> calculateBuyData ex (asks buyOrders) saleTotal
               = Inr (amountSpent, sharesPossibleToBuy, sharesBuyable', averageBuyPrice')
           \<and> sharesSellable (sellCoin r) = sharesSellable'
           \<and> averageSellPrice (sellCoin r) = averageSellPrice'
           \<and> amountBuyable (buyCoin r) = amountSpent
           \<and> averageBuyPrice (buyCoin r) = averageBuyPrice'
           \<and> ratio r = fdiv averageSellPrice' averageBuyPrice'"
      by (auto simp: candidateRoute_def Let_def andThen_Inr_iff split: prod.splits
          simp del: fdiv.simps)
  qed
qed

theorem candidate_ratio_chained_witness:
  "possibleRoutes exampleExchange ''XRP'' ''ADA'' [''BTC'', ''USDT''] (Fin 4) = Inr exampleCandidates
   \<and> list_all2 (\<lambda>baseCoin' r.
           \<exists>sellOrders buyOrders sharesSellable' averageSellPrice' saleTotal
              amountSpent sharesPossibleToBuy sharesBuyable' averageBuyPrice'.
             getOrdersBinance exampleExchange (''XRP'' @ baseCoin') = Inr sellOrders
           \<and> getOrdersBinance exampleExchange (''ADA'' @ baseCoin') = Inr buyOrders
           \<and> calculateSellData exampleExchange (bids sellOrders) (Fin 4)
               = Inr (sharesSellable', averageSellPrice', saleTotal)
           \<and> calculateBuyData exampleExchange (asks buyOrders) saleTotal
               = Inr (amountSpent, sharesPossibleToBuy, sharesBuyable', averageBuyPrice')
           \<and> sharesSellable (sellCoin r) = sharesSellable'
           \<and> averageSellPrice (sellCoin r) = averageSellPrice'
           \<and> amountBuyable (buyCoin r) = amountSpent
           \<and> averageBuyPrice (buyCoin r) = averageBuyPrice'
           \<and> ratio r = fdiv averageSellPrice' averageBuyPrice') [''BTC'', ''USDT''] exampleCandidates"
  using example_possibleRoutes candidate_ratio_chained[OF example_possibleRoutes] by (rule conjI)

section \<open>Properties of the settlement\<close>

text \<open>
  C6. In a settled trade the fee rate of a leg depends on its commission asset alone:
  0.00005 when it is BNB, 0.0001 otherwise. The total of the sale is the aggregated sale
  amount (quantity times price) less amount times rate, the total of the purchase the
  aggregated buy amount plus amount times rate.
\<close>

theorem trade_fee_totals:
  assumes "trade engine ex req = Inr t"
  shows "\<exists>sellCoinSymbol buyCoinSymbol quantityToBuy sellRes buyRes sellFill sellRest buyFill buyRest
            sellPrice sellQuantity sellCommission buyPrice buyQuantity buyCommission.
           sellMarketBinance ex sellCoinSymbol (reqShares req) = Inr sellRes
         \<and> buyMarketBinance ex buyCoinSymbol quantityToBuy = Inr buyRes
         \<and> fills sellRes = sellFill # sellRest
         \<and> fills buyRes = buyFill # buyRest
         \<and> aggregateFilledTradesBinance ex (fills sellRes)
              = Inr (sellPrice, sellQuantity, sellCommission)
         \<and> aggregateFilledTradesBinance ex (fills buyRes)
              = Inr (buyPrice, buyQuantity, buyCommission)
         \<and> price (sale t) = sellPrice \<and> quantity (sale t) = sellQuantity
         \<and> price (purchase t) = buyPrice \<and> quantity (purchase t) = buyQuantity
         \<and> commissionAsset (sale t) = fillCommissionAsset sellFill
         \<and> commissionAsset (purchase t) = fillCommissionAsset buyFill
         \<and> total (sale t)
              = fsub (fmul sellQuantity sellPrice)
                     (fmul (fmul sellQuantity sellPrice)
                           (if commissionAsset (sale t) = ''BNB''
                            then rnd (5 / 100000) else rnd (1 / 10000)))
         \<and> total (purchase t)
              = fadd (fmul buyQuantity buyPrice)
                     (fmul (fmul buyQuantity buyPrice)
                           (if commissionAsset (purchase t) = ''BNB''
                            then rnd (5 / 100000) else rnd (1 / 10000)))"
proof -
  obtain sellCoinSymbol buyCoinSymbol quantityToBuy sellRes buyRes where
    m: "sellMarketBinance ex sellCoinSymbol (reqShares req) = Inr sellRes"
       "buyMarketBinance ex buyCoinSymbol quantityToBuy = Inr buyRes"
    and s: "settleSale ex sellRes = Inr (sale t)"
    and p: "settlePurchase ex buyRes = Inr (purchase t)"
    using trade_Inr[OF assms] by blast
  from settleSale_Inr[OF s] settlePurchase_Inr[OF p] m show ?thesis by blast
qed

theorem trade_fee_totals_witness:
  "\<exists>t. trade ArrayTimSort exampleExchange exampleRequest = Inr t
      \<and> commissionAsset (sale t) = ''BNB''
      \<and> total (sale t) = fsub (fmul (Fin 4) (Fin 4))
                              (fmul (fmul (Fin 4) (Fin 4)) (rnd (5 / 100000)))
      \<and> commissionAsset (purchase t) = ''ADA''
      \<and> total (purchase t) = fadd (fmul (quantity (purchase t)) (Fin 2))
                                  (fmul (fmul (quantity (purchase t)) (Fin 2)) (rnd (1 / 10000)))"
proof -
  have "\<exists>t. trade ArrayTimSort exampleExchange exampleRequest = Inr t"
    by (simp add: trade_def tradeRoute_def settleSale_def settlePurchase_def tradeSavings_def
        firstFill_def andThen_def exampleExchange_def exampleRequest_def Let_def toNumber_def
        example_quantityToBuy del: fmul.simps fadd.simps fmod.simps)
  then obtain t where t: "trade ArrayTimSort exampleExchange exampleRequest = Inr t" ..
  from trade_fee_totals[OF t] obtain sellCoinSymbol buyCoinSymbol quantityToBuy sellRes buyRes
      sellFill sellRest buyFill buyRest sellPrice sellQuantity sellCommission
      buyPrice buyQuantity buyCommission
    where f: "sellMarketBinance exampleExchange sellCoinSymbol (reqShares exampleRequest) = Inr sellRes"
      "buyMarketBinance exampleExchange buyCoinSymbol quantityToBuy = Inr buyRes"
      "fills sellRes = sellFill # sellRest" "fills buyRes = buyFill # buyRest"
      "aggregateFilledTradesBinance exampleExchange (fills sellRes)
         = Inr (sellPrice, sellQuantity, sellCommission)"
      "aggregateFilledTradesBinance exampleExchange (fills buyRes)
         = Inr (buyPrice, buyQuantity, buyCommission)"
      "price (sale t) = sellPrice" "quantity (sale t) = sellQuantity"
      "price (purchase t) = buyPrice" "quantity (purchase t) = buyQuantity"
      "commissionAsset (sale t) = fillCommissionAsset sellFill"
      "commissionAsset (purchase t) = fillCommissionAsset buyFill"
    and tot: "total (sale t)
              = fsub (fmul sellQuantity sellPrice)
                     (fmul (fmul sellQuantity sellPrice)
                           (if commissionAsset (sale t) = ''BNB''
                            then rnd (5 / 100000) else rnd (1 / 10000)))"
      "total (purchase t)
              = fadd (fmul buyQuantity buyPrice)
                     (fmul (fmul buyQuantity buyPrice)
                           (if commissionAsset (purchase t) = ''BNB''
                            then rnd (5 / 100000) else rnd (1 / 10000)))"
    by blast
  have s: "sellFill = \<lparr>fillPrice = Fin 4, fillQty = Fin 4, fillCommission = Fin 0,
            fillCommissionAsset = ''BNB'', fillTradeId = 1\<rparr>"
    and b: "buyFill = \<lparr>fillPrice = Fin 2, fillQty = quantityToBuy, fillCommission = Fin 0,
            fillCommissionAsset = ''ADA'', fillTradeId = 2\<rparr>"
    using f(1-4) by (auto simp: exampleExchange_def exampleRequest_def)
  have sp: "sellPrice = Fin 4" "sellQuantity = Fin 4" and bp: "buyPrice = Fin 2"
    using f(5,6) unfolding f(3,4) s b by (auto simp: exampleExchange_def)
  have a: "commissionAsset (sale t) = ''BNB''" "commissionAsset (purchase t) = ''ADA''"
    using f(11,12) s b by simp_all
  show ?thesis
    using t a tot f(10) unfolding sp bp by (intro exI[of _ t]) simp
qed



section \<open>Properties of the live session\<close>

text \<open>
  C8. After a sell-market update whose simulation returned, and until the next one, a
  buy-market update leaves the session as it is and broadcasts what the buy simulation
  makes of the \<open>saleTotal\<close> of that sell-market update: the sale is not simulated again.
  The sell-market update simulates the sale of the quantity entered last before it; a
  quantity entered after it changes neither the cached \<open>saleTotal\<close> nor what the
  buy-market updates broadcast. Before the first sell-market update the buy simulation is
  run with the initial \<open>saleProceeds\<close>. \<^verbatim>\<open>sharesUpdated\<close> stores the quantity and does nothing
  else.
\<close>

theorem live_session_cached_saleTotal:
  "(calculateSellData ex (bids sellCoinOrders) (enteredQuantity (SHARES_FOR_ORDER_UPDATES s) es1)
      = Inr (sharesSellable', averageSellPrice', saleTotal)
    \<and> (\<forall>e\<in>set es2. \<not> isSellUpdate e) \<longrightarrow>
      handle ex sellCoinSymbol buyCoin'
        (fst (run ex sellCoinSymbol buyCoin' s (es1 @ SellCoinOrders sellCoinOrders # es2)))
        (BuyCoinOrders buyCoinOrders)
      = (fst (run ex sellCoinSymbol buyCoin' s (es1 @ SellCoinOrders sellCoinOrders # es2)),
         case calculateBuyData ex (asks buyCoinOrders) saleTotal of
           Inl e \<Rightarrow> Threw e
         | Inr (amountSpent, sharesPossibleToBuy, sharesBuyable', averageBuyPrice') \<Rightarrow>
             (case topOfBook (bids buyCoinOrders) of
                Inl e \<Rightarrow> Threw e
              | Inr bid' \<Rightarrow>
                  (case topOfBook (asks buyCoinOrders) of
                     Inl e \<Rightarrow> Threw e
                   | Inr ask' \<Rightarrow>
                       UpdateBuyCoinInfo
                         (adjustBuyCoin
                            (buyCoin'\<lparr>bid := Some bid', ask := Some ask',
                                      averageBuyPrice := averageBuyPrice',
                                      sharesBuyable := sharesBuyable',
                                      amountBuyable := amountSpent\<rparr>))))))
   \<and> ((\<forall>e\<in>set es. \<not> isSellUpdate e) \<longrightarrow>
      handle ex sellCoinSymbol buyCoin' (fst (run ex sellCoinSymbol buyCoin' s es))
        (BuyCoinOrders buyCoinOrders)
      = (fst (run ex sellCoinSymbol buyCoin' s es),
         case calculateBuyData ex (asks buyCoinOrders) (saleProceeds s) of
           Inl e \<Rightarrow> Threw e
         | Inr (amountSpent, sharesPossibleToBuy, sharesBuyable', averageBuyPrice') \<Rightarrow>
             (case topOfBook (bids buyCoinOrders) of
                Inl e \<Rightarrow> Threw e
              | Inr bid' \<Rightarrow>
                  (case topOfBook (asks buyCoinOrders) of
                     Inl e \<Rightarrow> Threw e
                   | Inr ask' \<Rightarrow>
                       UpdateBuyCoinInfo
                         (adjustBuyCoin
                            (buyCoin'\<lparr>bid := Some bid', ask := Some ask',
                                      averageBuyPrice := averageBuyPrice',
                                      sharesBuyable := sharesBuyable',
                                      amountBuyable := amountSpent\<rparr>))))))
   \<and> handle ex sellCoinSymbol buyCoin' s (SharesUpdated sharesEntered)
       = (s\<lparr>SHARES_FOR_ORDER_UPDATES := sharesEntered\<rparr>, Silent)
   \<and> SHARES_FOR_ORDER_UPDATES (fst (run ex sellCoinSymbol buyCoin' s es))
       = enteredQuantity (SHARES_FOR_ORDER_UPDATES s) es
   \<and> fst (handle ex sellCoinSymbol buyCoin' s (SellCoinOrders sellCoinOrders))
       = (case calculateSellData ex (bids sellCoinOrders) (SHARES_FOR_ORDER_UPDATES s) of
            Inl e \<Rightarrow> s
          | Inr (sharesSellable', averageSellPrice', saleTotal) \<Rightarrow> s\<lparr>saleProceeds := saleTotal\<rparr>)"
proof (intro conjI impI)
  assume a: "calculateSellData ex (bids sellCoinOrders)
               (enteredQuantity (SHARES_FOR_ORDER_UPDATES s) es1)
             = Inr (sharesSellable', averageSellPrice', saleTotal)
           \<and> (\<forall>e\<in>set es2. \<not> isSellUpdate e)"
  have "saleProceeds (fst (run ex sellCoinSymbol buyCoin' s
                             (es1 @ SellCoinOrders sellCoinOrders # es2))) = saleTotal"
    using a run_caches by blast
  then show "handle ex sellCoinSymbol buyCoin'
        (fst (run ex sellCoinSymbol buyCoin' s (es1 @ SellCoinOrders sellCoinOrders # es2)))
        (BuyCoinOrders buyCoinOrders)
      = (fst (run ex sellCoinSymbol buyCoin' s (es1 @ SellCoinOrders sellCoinOrders # es2)),
         case calculateBuyData ex (asks buyCoinOrders) saleTotal of
           Inl e \<Rightarrow> Threw e
         | Inr (amountSpent, sharesPossibleToBuy, sharesBuyable', averageBuyPrice') \<Rightarrow>
             (case topOfBook (bids buyCoinOrders) of
                Inl e \<Rightarrow> Threw e
              | Inr bid' \<Rightarrow>
                  (case topOfBook (asks buyCoinOrders) of
                     Inl e \<Rightarrow> Threw e
                   | Inr ask' \<Rightarrow>
                       UpdateBuyCoinInfo
                         (adjustBuyCoin
                            (buyCoin'\<lparr>bid := Some bid', ask := Some ask',
                                      averageBuyPrice := averageBuyPrice',
                                      sharesBuyable := sharesBuyable',
                                      amountBuyable := amountSpent\<rparr>)))))"
    unfolding handle.simps onBuyCoinOrders_outcome by simp
next
  assume a: "\<forall>e\<in>set es. \<not> isSellUpdate e"
  have "saleProceeds (fst (run ex sellCoinSymbol buyCoin' s es)) = saleProceeds s"
    using a by (rule run_not_sell)
  then show "handle ex sellCoinSymbol buyCoin' (fst (run ex sellCoinSymbol buyCoin' s es))
        (BuyCoinOrders buyCoinOrders)
      = (fst (run ex sellCoinSymbol buyCoin' s es),
         case calculateBuyData ex (asks buyCoinOrders) (saleProceeds s) of
           Inl e \<Rightarrow> Threw e
         | Inr (amountSpent, sharesPossibleToBuy, sharesBuyable', averageBuyPrice') \<Rightarrow>
             (case topOfBook (bids buyCoinOrders) of
                Inl e \<Rightarrow> Threw e
              | Inr bid' \<Rightarrow>
                  (case topOfBook (asks buyCoinOrders) of
                     Inl e \<Rightarrow> Threw e
                   | Inr ask' \<Rightarrow>
                       UpdateBuyCoinInfo
                         (adjustBuyCoin
                            (buyCoin'\<lparr>bid := Some bid', ask := Some ask',
                                      averageBuyPrice := averageBuyPrice',
                                      sharesBuyable := sharesBuyable',
                                      amountBuyable := amountSpent\<rparr>)))))"
    unfolding handle.simps onBuyCoinOrders_outcome by simp
next
  show "handle ex sellCoinSymbol buyCoin' s (SharesUpdated sharesEntered)
       = (s\<lparr>SHARES_FOR_ORDER_UPDATES := sharesEntered\<rparr>, Silent)"
    by (simp add: sharesUpdated_def)
next
  show "SHARES_FOR_ORDER_UPDATES (fst (run ex sellCoinSymbol buyCoin' s es))
       = enteredQuantity (SHARES_FOR_ORDER_UPDATES s) es"
    by (rule run_shares)
next
  show "fst (handle ex sellCoinSymbol buyCoin' s (SellCoinOrders sellCoinOrders))
       = (case calculateSellData ex (bids sellCoinOrders) (SHARES_FOR_ORDER_UPDATES s) of
            Inl e \<Rightarrow> s
          | Inr (sharesSellable', averageSellPrice', saleTotal) \<Rightarrow> s\<lparr>saleProceeds := saleTotal\<rparr>)"
    by (simp add: onSellCoinOrders_def split: sum.splits prod.splits)
qed

theorem live_session_cached_saleTotal_witness:
  "snd (handle exampleExchange ''XRPUSDT'' exampleBuyCoin
          (fst (run exampleExchange ''XRPUSDT'' exampleBuyCoin newSession
                  [SharesUpdated (Fin 4), SellCoinOrders exampleBook, SharesUpdated (Fin 6)]))
          (BuyCoinOrders exampleBook))
     = UpdateBuyCoinInfo
         (adjustBuyCoin
            (exampleBuyCoin\<lparr>bid := Some (Fin 4), ask := Some (Fin 5),
                            averageBuyPrice := Fin 5,
                            sharesBuyable := fdiv (Fin 16) (Fin 5),
                            amountBuyable := Fin 16\<rparr>))
   \<and> snd (handle exampleExchange ''XRPUSDT'' exampleBuyCoin
          (fst (run exampleExchange ''XRPUSDT'' exampleBuyCoin newSession [SharesUpdated (Fin 4)]))
          (BuyCoinOrders exampleBook))
     = UpdateBuyCoinInfo
         (adjustBuyCoin
            (exampleBuyCoin\<lparr>bid := Some (Fin 4), ask := Some (Fin 5),
                            averageBuyPrice := Fin 5,
                            sharesBuyable := fdiv (Fin 0) (Fin 5),
                            amountBuyable := Fin 0\<rparr>))"
proof -
  have 1: "calculateSellData exampleExchange (bids exampleBook)
             (enteredQuantity (SHARES_FOR_ORDER_UPDATES newSession) [SharesUpdated (Fin 4)])
           = Inr (Fin 4, Fin 4, Fin 16)
         \<and> (\<forall>e\<in>set [SharesUpdated (Fin 6)]. \<not> isSellUpdate e)"
    by (simp add: exampleExchange_def exampleBook_def rnd_16)
  have 2: "\<forall>e\<in>set [SharesUpdated (Fin 4)]. \<not> isSellUpdate e" by simp
  have b: "calculateBuyData exampleExchange (asks exampleBook) v
           = Inr (v, fdiv v (Fin 5), fdiv v (Fin 5), Fin 5)" for v
    by (simp add: exampleExchange_def exampleBook_def del: fdiv.simps)
  have t: "topOfBook (bids exampleBook) = Inr (Fin 4)" "topOfBook (asks exampleBook) = Inr (Fin 5)"
    by (simp_all add: topOfBook_def exampleBook_def)
  note th = live_session_cached_saleTotal
      [where ex = exampleExchange and sellCoinOrders = exampleBook and buyCoinOrders = exampleBook
         and sellCoinSymbol = "''XRPUSDT''" and buyCoin' = exampleBuyCoin and s = newSession
         and ?es1.0 = "[SharesUpdated (Fin 4)]" and ?es2.0 = "[SharesUpdated (Fin 6)]"
         and es = "[SharesUpdated (Fin 4)]"
         and sharesSellable' = "Fin 4" and averageSellPrice' = "Fin 4" and saleTotal = "Fin 16"]
  have p0: "saleProceeds newSession = Fin 0" by (simp add: newSession_def)
  from th[THEN conjunct1, THEN mp, OF 1]
  have A: "snd (handle exampleExchange ''XRPUSDT'' exampleBuyCoin
          (fst (run exampleExchange ''XRPUSDT'' exampleBuyCoin newSession
                  ([SharesUpdated (Fin 4)] @ SellCoinOrders exampleBook # [SharesUpdated (Fin 6)])))
          (BuyCoinOrders exampleBook))
     = UpdateBuyCoinInfo
         (adjustBuyCoin
            (exampleBuyCoin\<lparr>bid := Some (Fin 4), ask := Some (Fin 5),
                            averageBuyPrice := Fin 5,
                            sharesBuyable := fdiv (Fin 16) (Fin 5),
                            amountBuyable := Fin 16\<rparr>))"
    by (simp only: b t sum.case prod.case snd_conv)
  from th[THEN conjunct2, THEN conjunct1, THEN mp, OF 2]
  have B: "snd (handle exampleExchange ''XRPUSDT'' exampleBuyCoin
          (fst (run exampleExchange ''XRPUSDT'' exampleBuyCoin newSession [SharesUpdated (Fin 4)]))
          (BuyCoinOrders exampleBook))
     = UpdateBuyCoinInfo
         (adjustBuyCoin
            (exampleBuyCoin\<lparr>bid := Some (Fin 4), ask := Some (Fin 5),
                            averageBuyPrice := Fin 5,
                            sharesBuyable := fdiv (Fin 0) (Fin 5),
                            amountBuyable := Fin 0\<rparr>))"
    by (simp only: b t p0 sum.case prod.case snd_conv)
  from A B show ?thesis by (simp only: append.simps simp_thms)
qed

text \<open>
  C10 does not hold of every update with a level on both sides of the book: a handler
  whose simulation fails throws and broadcasts nothing. On the exchange that signals the
  average over a quantity of zero as an error, both handlers of a new session throw.
\<close>

theorem live_handlers_broadcast_counterexample:
  "bids exampleBook \<noteq> [] \<and> asks exampleBook \<noteq> []
   \<and> snd (onSellCoinOrders strictExchange ''XRPUSDT'' newSession exampleBook)
       = Threw (Rejected ''DivisionByZero'')
   \<and> snd (onBuyCoinOrders strictExchange exampleBuyCoin newSession exampleBook)
       = Threw (Rejected ''DivisionByZero'')"
  by (simp add: onSellCoinOrders_def onBuyCoinOrders_def strictExchange_def newSession_def
      exampleBook_def)

text \<open>
  C10, as the code has it. With a level on both sides of the book a handler broadcasts
  the recomputed figures with the top bid and the top ask when its simulation returns,
  and throws the error of the simulation when it does not. With no bid or no ask it
  never broadcasts: it throws the error of the simulation, or the \<^verbatim>\<open>TypeError\<close> of reading
  the top of the book when the simulation returned.
\<close>

theorem live_handlers_top_of_book:
  "(bids ob = bidLevel # moreBids \<and> asks ob = askLevel # moreAsks \<longrightarrow>
      snd (onSellCoinOrders ex sellCoinSymbol s ob)
        = (case calculateSellData ex (bids ob) (SHARES_FOR_ORDER_UPDATES s) of
             Inl e \<Rightarrow> Threw e
           | Inr (sharesSellable', averageSellPrice', saleTotal) \<Rightarrow>
               UpdateSellCoinInfo
                 \<lparr>market = sellCoinSymbol, minStep = None,
                  bid = Some (fst bidLevel), ask = Some (fst askLevel),
                  averageSellPrice = averageSellPrice', sharesSellable = sharesSellable'\<rparr>)
    \<and> snd (onBuyCoinOrders ex buyCoin' s ob)
        = (case calculateBuyData ex (asks ob) (saleProceeds s) of
             Inl e \<Rightarrow> Threw e
           | Inr (amountSpent, sharesPossibleToBuy, sharesBuyable', averageBuyPrice') \<Rightarrow>
               UpdateBuyCoinInfo
                 (adjustBuyCoin
                    (buyCoin'\<lparr>bid := Some (fst bidLevel), ask := Some (fst askLevel),
                              averageBuyPrice := averageBuyPrice',
                              sharesBuyable := sharesBuyable',
                              amountBuyable := amountSpent\<rparr>))))
   \<and> (bids ob = [] \<or> asks ob = [] \<longrightarrow>
      snd (onSellCoinOrders ex sellCoinSymbol s ob)
        = (case calculateSellData ex (bids ob) (SHARES_FOR_ORDER_UPDATES s) of
             Inl e \<Rightarrow> Threw e
           | Inr r \<Rightarrow> Threw TypeError)
    \<and> snd (onBuyCoinOrders ex buyCoin' s ob)
        = (case calculateBuyData ex (asks ob) (saleProceeds s) of
             Inl e \<Rightarrow> Threw e
           | Inr r \<Rightarrow> Threw TypeError))"
proof (intro conjI impI)
  assume a: "bids ob = bidLevel # moreBids \<and> asks ob = askLevel # moreAsks"
  show "snd (onSellCoinOrders ex sellCoinSymbol s ob)
        = (case calculateSellData ex (bids ob) (SHARES_FOR_ORDER_UPDATES s) of
             Inl e \<Rightarrow> Threw e
           | Inr (sharesSellable', averageSellPrice', saleTotal) \<Rightarrow>
               UpdateSellCoinInfo
                 \<lparr>market = sellCoinSymbol, minStep = None,
                  bid = Some (fst bidLevel), ask = Some (fst askLevel),
                  averageSellPrice = averageSellPrice', sharesSellable = sharesSellable'\<rparr>)"
    using a by (simp add: onSellCoinOrders_def topOfBook_def split: sum.splits prod.splits)
  show "snd (onBuyCoinOrders ex buyCoin' s ob)
        = (case calculateBuyData ex (asks ob) (saleProceeds s) of
             Inl e \<Rightarrow> Threw e
           | Inr (amountSpent, sharesPossibleToBuy, sharesBuyable', averageBuyPrice') \<Rightarrow>
               UpdateBuyCoinInfo
                 (adjustBuyCoin
                    (buyCoin'\<lparr>bid := Some (fst bidLevel), ask := Some (fst askLevel),
                              averageBuyPrice := averageBuyPrice',
                              sharesBuyable := sharesBuyable',
                              amountBuyable := amountSpent\<rparr>)))"
    using a by (simp add: onBuyCoinOrders_def topOfBook_def split: sum.splits prod.splits)
next
  assume a: "bids ob = [] \<or> asks ob = []"
  show "snd (onSellCoinOrders ex sellCoinSymbol s ob)
        = (case calculateSellData ex (bids ob) (SHARES_FOR_ORDER_UPDATES s) of
             Inl e \<Rightarrow> Threw e
           | Inr r \<Rightarrow> Threw TypeError)"
    using a
    by (cases "bids ob")
       (auto simp: onSellCoinOrders_def topOfBook_def split: sum.splits prod.splits)
  show "snd (onBuyCoinOrders ex buyCoin' s ob)
        = (case calculateBuyData ex (asks ob) (saleProceeds s) of
             Inl e \<Rightarrow> Threw e
           | Inr r \<Rightarrow> Threw TypeError)"
    using a
    by (cases "bids ob")
       (auto simp: onBuyCoinOrders_def topOfBook_def split: sum.splits prod.splits)
qed

theorem live_handlers_top_of_book_witness:
  "snd (onSellCoinOrders exampleExchange ''XRPUSDT'' exampleSession exampleBook)
     = UpdateSellCoinInfo
         \<lparr>market = ''XRPUSDT'', minStep = None, bid = Some (Fin 4), ask = Some (Fin 5),
          averageSellPrice = Fin 4, sharesSellable = Fin 4\<rparr>
   \<and> snd (onBuyCoinOrders exampleExchange exampleBuyCoin exampleSession exampleBook)
     = UpdateBuyCoinInfo
         (adjustBuyCoin
            (exampleBuyCoin\<lparr>bid := Some (Fin 4), ask := Some (Fin 5),
                            averageBuyPrice := Fin 5,
                            sharesBuyable := fdiv (Fin 16) (Fin 5),
                            amountBuyable := Fin 16\<rparr>))
   \<and> snd (onSellCoinOrders strictExchange ''XRPUSDT'' newSession exampleBook)
     = Threw (Rejected ''DivisionByZero'')
   \<and> snd (onSellCoinOrders exampleExchange ''XRPUSDT'' exampleSession (exampleBook\<lparr>asks := []\<rparr>))
     = Threw TypeError
   \<and> snd (onBuyCoinOrders exampleExchange exampleBuyCoin exampleSession (exampleBook\<lparr>bids := []\<rparr>))
     = Threw TypeError
   \<and> snd (onBuyCoinOrders exampleExchange exampleBuyCoin exampleSession (exampleBook\<lparr>asks := []\<rparr>))
     = Threw (Rejected ''no asks'')"
proof -
  have lv: "bids exampleBook = (Fin 4, Fin 10) # [(Fin 3, Fin 20)]
            \<and> asks exampleBook = (Fin 5, Fin 10) # []"
    by (simp add: exampleBook_def)
  have s: "calculateSellData exampleExchange (bids exampleBook)
             (SHARES_FOR_ORDER_UPDATES exampleSession) = Inr (Fin 4, Fin 4, Fin 16)"
    and b: "calculateBuyData exampleExchange (asks exampleBook) (saleProceeds exampleSession)
             = Inr (Fin 16, fdiv (Fin 16) (Fin 5), fdiv (Fin 16) (Fin 5), Fin 5)"
    and z: "calculateSellData strictExchange (bids exampleBook)
             (SHARES_FOR_ORDER_UPDATES newSession) = Inl (Rejected ''DivisionByZero'')"
    and s': "calculateSellData exampleExchange (bids (exampleBook\<lparr>asks := []\<rparr>))
             (SHARES_FOR_ORDER_UPDATES exampleSession) = Inr (Fin 4, Fin 4, Fin 16)"
    and b': "calculateBuyData exampleExchange (asks (exampleBook\<lparr>bids := []\<rparr>))
             (saleProceeds exampleSession)
             = Inr (Fin 16, fdiv (Fin 16) (Fin 5), fdiv (Fin 16) (Fin 5), Fin 5)"
    and b'': "calculateBuyData exampleExchange (asks (exampleBook\<lparr>asks := []\<rparr>))
             (saleProceeds exampleSession) = Inl (Rejected ''no asks'')"
    by (simp_all add: exampleExchange_def strictExchange_def exampleBook_def exampleSession_def
        newSession_def rnd_16 del: fdiv.simps)
  note t = live_handlers_top_of_book
  have 1: "snd (onSellCoinOrders exampleExchange ''XRPUSDT'' exampleSession exampleBook)
     = UpdateSellCoinInfo
         \<lparr>market = ''XRPUSDT'', minStep = None, bid = Some (Fin 4), ask = Some (Fin 5),
          averageSellPrice = Fin 4, sharesSellable = Fin 4\<rparr>"
    using t[where ob = exampleBook and ex = exampleExchange and s = exampleSession
         and bidLevel = "(Fin 4, Fin 10)" and askLevel = "(Fin 5, Fin 10)"
         and moreBids = "[(Fin 3, Fin 20)]" and moreAsks = "[]"
         and sellCoinSymbol = "''XRPUSDT''", THEN conjunct1, THEN mp, OF lv, THEN conjunct1]
    by (simp add: s)
  have 2: "snd (onBuyCoinOrders exampleExchange exampleBuyCoin exampleSession exampleBook)
     = UpdateBuyCoinInfo
         (adjustBuyCoin
            (exampleBuyCoin\<lparr>bid := Some (Fin 4), ask := Some (Fin 5),
                            averageBuyPrice := Fin 5,
                            sharesBuyable := fdiv (Fin 16) (Fin 5),
                            amountBuyable := Fin 16\<rparr>))"
    using t[where ob = exampleBook and ex = exampleExchange and s = exampleSession
         and bidLevel = "(Fin 4, Fin 10)" and askLevel = "(Fin 5, Fin 10)"
         and moreBids = "[(Fin 3, Fin 20)]" and moreAsks = "[]"
         and buyCoin' = exampleBuyCoin, THEN conjunct1, THEN mp, OF lv, THEN conjunct2]
    by (simp add: b del: fdiv.simps)
  have 3: "snd (onSellCoinOrders strictExchange ''XRPUSDT'' newSession exampleBook)
     = Threw (Rejected ''DivisionByZero'')"
    using t[where ob = exampleBook and ex = strictExchange and s = newSession
         and bidLevel = "(Fin 4, Fin 10)" and askLevel = "(Fin 5, Fin 10)"
         and moreBids = "[(Fin 3, Fin 20)]" and moreAsks = "[]"
         and sellCoinSymbol = "''XRPUSDT''", THEN conjunct1, THEN mp, OF lv, THEN conjunct1]
    by (simp add: z)
  have e1: "bids (exampleBook\<lparr>asks := []\<rparr>) = [] \<or> asks (exampleBook\<lparr>asks := []\<rparr>) = []"
    and e2: "bids (exampleBook\<lparr>bids := []\<rparr>) = [] \<or> asks (exampleBook\<lparr>bids := []\<rparr>) = []"
    by simp_all
  have 4: "snd (onSellCoinOrders exampleExchange ''XRPUSDT'' exampleSession (exampleBook\<lparr>asks := []\<rparr>))
     = Threw TypeError"
    using t[where ob = "exampleBook\<lparr>asks := []\<rparr>" and ex = exampleExchange and s = exampleSession
         and sellCoinSymbol = "''XRPUSDT''", THEN conjunct2, THEN mp, OF e1, THEN conjunct1]
    by (simp add: s s')
  have 5: "snd (onBuyCoinOrders exampleExchange exampleBuyCoin exampleSession (exampleBook\<lparr>bids := []\<rparr>))
     = Threw TypeError"
    using t[where ob = "exampleBook\<lparr>bids := []\<rparr>" and ex = exampleExchange and s = exampleSession
         and buyCoin' = exampleBuyCoin, THEN conjunct2, THEN mp, OF e2, THEN conjunct2]
    by (simp add: b b' del: fdiv.simps)
  have 6: "snd (onBuyCoinOrders exampleExchange exampleBuyCoin exampleSession (exampleBook\<lparr>asks := []\<rparr>))
     = Threw (Rejected ''no asks'')"
    using t[where ob = "exampleBook\<lparr>asks := []\<rparr>" and ex = exampleExchange and s = exampleSession
         and buyCoin' = exampleBuyCoin, THEN conjunct2, THEN mp, OF e1, THEN conjunct2]
    using b'' by simp
  show ?thesis using 1 2 3 4 5 6 by (intro conjI)
qed

end
